theory Spec2Isabelle
  imports Complex_Main "HOL-Library.Sublist" "HOL-Library.Log_Nat"
begin

section \<open>The PQC benchmark script \<^verbatim>\<open>scripts/benchmark_pqc.py\<close>\<close>

text \<open>
  The script times calls into the external \<^verbatim>\<open>oqs\<close> library, averages the timings and
  writes one CSV file. The embedding keeps the script's control flow and makes everything
  the script does beyond returning a value explicit:
  \<^item> the library and the clock are a parameter (a record of operations on an abstract
    world \<open>'w\<close>), since neither is part of the script;
  \<^item> an exception is the \<open>Inl\<close> branch of a result;
  \<^item> the console, the file system and the set of open handles are fields of the state
    that every function takes and returns.
  Modelling choices: a Python float is the rational it denotes, and every float operation
  of the script (a clock reading, the subtraction, the multiplication by 1000,
  \<^verbatim>\<open>statistics.mean\<close>) rounds its exact result to the nearest double, ties to even
  (infinities and NaN, that is results of 2^1024 and beyond, are not modelled); a CSV file
  is the list of its rows, each a list of field values (the textual quoting of
  \<^verbatim>\<open>csv.writer\<close> is not modelled);
  \<^verbatim>\<open>str.format\<close> is left uninterpreted (a printed line keeps the template and its
  arguments); \<^verbatim>\<open>os.makedirs\<close> and \<^verbatim>\<open>open\<close> are assumed to succeed; \<^verbatim>\<open>assert\<close> is
  active (the interpreter does not run with \<^verbatim>\<open>-O\<close>).
\<close>

subsection \<open>Values, exceptions, state\<close>

type_synonym bytes = string

datatype pyval = StrV string | IntV int | FloatV rat

text \<open>A \<^verbatim>\<open>dict\<close> with string keys, in insertion order.\<close>

type_synonym pydict = "(string \<times> pyval) list"

datatype exn =
    MechanismNotEnabledError
  | AssertionError
  | StatisticsError
  | KeyError
  | ValueError
  | OtherError string

text \<open>
  A printed line: a plain string, or the result of \<^verbatim>\<open>template.format(args)\<close>, where an
  argument is a value or a float already formatted with \<^verbatim>\<open>:.3f\<close>.
\<close>

datatype fmtarg = Val pyval | Fixed3 rat

datatype line = Text string | Format string "fmtarg list"

record ('w, 'h) state =
  world :: 'w
  stdout :: "line list"
  dirs :: "string set"
  files :: "string \<Rightarrow> pyval list list option"
  handles :: "'h list"

type_synonym ('a, 'w, 'h) prog = "('w, 'h) state \<Rightarrow> (exn + 'a) \<times> ('w, 'h) state"

definition ok :: "'a \<Rightarrow> ('a, 'w, 'h) prog" where
  "ok x s = (Inr x, s)"

definition raise :: "exn \<Rightarrow> ('a, 'w, 'h) prog" where
  "raise e s = (Inl e, s)"

definition andthen :: "('a, 'w, 'h) prog \<Rightarrow> ('a \<Rightarrow> ('b, 'w, 'h) prog) \<Rightarrow> ('b, 'w, 'h) prog" where
  "andthen m f s = (case m s of (Inl e, s') \<Rightarrow> (Inl e, s') | (Inr x, s') \<Rightarrow> f x s')"

definition print :: "line \<Rightarrow> ('w, 'h) state \<Rightarrow> ('w, 'h) state" where
  "print l s = s\<lparr>stdout := stdout s @ [l]\<rparr>"

subsection \<open>Floats\<close>

text \<open>
  IEEE 754 binary64, round to nearest, ties to even. A positive \<open>x\<close> is scaled by a power
  of two into \<open>[2^52, 2^53)\<close> (or, for a subnormal, by \<open>2^1074\<close> into \<open>[0, 2^52)\<close>), rounded
  to an integer and scaled back. \<open>exponent x\<close> is that power: the position of the last
  bit of the significand.
\<close>

definition round_half_even :: "rat \<Rightarrow> int" where
  "round_half_even y =
     (let f = \<lfloor>y\<rfloor>; r = y - of_int f
      in if r < 1 / 2 then f else if 1 / 2 < r then f + 1 else if even f then f else f + 1)"

definition exponent :: "rat \<Rightarrow> int" where
  "exponent x =
     (case quotient_of x of (p, q) \<Rightarrow>
        let e0 = bitlen p - bitlen q - 53;
            e1 = (if 2 ^ 53 \<le> x * 2 powi (- e0) then e0 + 1 else e0)
        in max (- 1074) e1)"

definition double :: "rat \<Rightarrow> rat" where
  "double x =
     (if x = 0 then 0
      else sgn x * of_int (round_half_even (\<bar>x\<bar> * 2 powi (- exponent \<bar>x\<bar>)))
             * 2 powi exponent \<bar>x\<bar>)"

text \<open>\<^verbatim>\<open>a - b\<close> and \<^verbatim>\<open>a * b\<close> on floats.\<close>

definition fsub :: "rat \<Rightarrow> rat \<Rightarrow> rat" where
  "fsub a b = double (a - b)"

definition fmul :: "rat \<Rightarrow> rat \<Rightarrow> rat" where
  "fmul a b = double (a * b)"

subsection \<open>The library boundary\<close>

text \<open>
  What the script consumes of \<^verbatim>\<open>oqs\<close> and \<^verbatim>\<open>time\<close>. A clock reading is a float: the
  value the parameter gives is taken to the nearest double. Every call may change the world
  and, except the clock and the release of a handle, may raise. \<open>kem_details\<close> and
  \<open>sig_details\<close> are the \<^verbatim>\<open>details\<close> dictionaries of a handle; \<open>kem_free\<close> and
  \<open>sig_free\<close> are what \<^verbatim>\<open>__exit__\<close> does to the library when a \<^verbatim>\<open>with\<close> block is left.
\<close>

record ('w, 'h) oqs =
  perf_counter :: "'w \<Rightarrow> rat \<times> 'w"
  KeyEncapsulation :: "string \<Rightarrow> 'w \<Rightarrow> (exn + 'h) \<times> 'w"
  kem_details :: "'h \<Rightarrow> string \<Rightarrow> int option"
  kem_generate_keypair :: "'h \<Rightarrow> 'w \<Rightarrow> (exn + bytes) \<times> 'w"
  kem_export_secret_key :: "'h \<Rightarrow> 'w \<Rightarrow> (exn + bytes) \<times> 'w"
  encap_secret :: "'h \<Rightarrow> bytes \<Rightarrow> 'w \<Rightarrow> (exn + bytes \<times> bytes) \<times> 'w"
  decap_secret :: "'h \<Rightarrow> bytes \<Rightarrow> bytes \<Rightarrow> 'w \<Rightarrow> (exn + bytes) \<times> 'w"
  kem_free :: "'h \<Rightarrow> 'w \<Rightarrow> 'w"
  Signature :: "string \<Rightarrow> 'w \<Rightarrow> (exn + 'h) \<times> 'w"
  sig_details :: "'h \<Rightarrow> string \<Rightarrow> int option"
  sig_generate_keypair :: "'h \<Rightarrow> 'w \<Rightarrow> (exn + bytes) \<times> 'w"
  sig_export_secret_key :: "'h \<Rightarrow> 'w \<Rightarrow> (exn + bytes) \<times> 'w"
  sign :: "'h \<Rightarrow> bytes \<Rightarrow> bytes \<Rightarrow> 'w \<Rightarrow> (exn + bytes) \<times> 'w"
  verify :: "'h \<Rightarrow> bytes \<Rightarrow> bytes \<Rightarrow> bytes \<Rightarrow> 'w \<Rightarrow> (exn + bool) \<times> 'w"
  sig_free :: "'h \<Rightarrow> 'w \<Rightarrow> 'w"

text \<open>A library call runs on the world of the state and leaves the rest alone.\<close>

definition call :: "('w \<Rightarrow> (exn + 'a) \<times> 'w) \<Rightarrow> ('a, 'w, 'h) prog" where
  "call f s = (case f (world s) of (r, w) \<Rightarrow> (r, s\<lparr>world := w\<rparr>))"

definition now :: "('w, 'h) oqs \<Rightarrow> (rat, 'w, 'h) prog" where
  "now lib s = (case perf_counter lib (world s) of (t, w) \<Rightarrow> (Inr (double t), s\<lparr>world := w\<rparr>))"

text \<open>
  \<^verbatim>\<open>with ctor(name) as h: body\<close>: when the constructor raises nothing was acquired;
  otherwise the body runs and \<^verbatim>\<open>__exit__\<close> releases the handle whatever the body did,
  without swallowing its exception.
\<close>

definition enter :: "(string \<Rightarrow> 'w \<Rightarrow> (exn + 'h) \<times> 'w) \<Rightarrow> string \<Rightarrow> ('h, 'w, 'h) prog" where
  "enter ctor name s =
     (case ctor name (world s) of
        (Inl e, w) \<Rightarrow> (Inl e, s\<lparr>world := w\<rparr>)
      | (Inr h, w) \<Rightarrow> (Inr h, s\<lparr>world := w, handles := h # handles s\<rparr>))"

definition leave :: "('h \<Rightarrow> 'w \<Rightarrow> 'w) \<Rightarrow> 'h \<Rightarrow> ('w, 'h) state \<Rightarrow> ('w, 'h) state" where
  "leave free h s = s\<lparr>world := free h (world s), handles := remove1 h (handles s)\<rparr>"

definition with_handle ::
  "(string \<Rightarrow> 'w \<Rightarrow> (exn + 'h) \<times> 'w) \<Rightarrow> ('h \<Rightarrow> 'w \<Rightarrow> 'w) \<Rightarrow> string \<Rightarrow>
   ('h \<Rightarrow> ('a, 'w, 'h) prog) \<Rightarrow> ('a, 'w, 'h) prog" where
  "with_handle ctor free name body s =
     (case enter ctor name s of
        (Inl e, s1) \<Rightarrow> (Inl e, s1)
      | (Inr h, s1) \<Rightarrow> (case body h s1 of (r, s2) \<Rightarrow> (r, leave free h s2)))"

subsection \<open>Loops, means, dictionary reads\<close>

text \<open>\<^verbatim>\<open>for _ in range(n): body\<close> over the loop's variables \<open>a\<close>; an exception ends it.\<close>

fun for_range :: "nat \<Rightarrow> ('a \<Rightarrow> ('a, 'w, 'h) prog) \<Rightarrow> 'a \<Rightarrow> ('a, 'w, 'h) prog" where
  "for_range 0 body a s = (Inr a, s)"
| "for_range (Suc n) body a s =
     (case body a s of
        (Inl e, s') \<Rightarrow> (Inl e, s')
      | (Inr a', s') \<Rightarrow> for_range n body a' s')"

text \<open>
  \<^verbatim>\<open>statistics.mean\<close>: raises on an empty sequence; on floats it sums and divides exactly
  and returns the quotient as a float.
\<close>

definition mean :: "rat list \<Rightarrow> exn + rat" where
  "mean xs =
     (if xs = [] then Inl StatisticsError
      else Inr (double (sum_list xs / of_nat (length xs))))"

text \<open>\<^verbatim>\<open>d[k]\<close> on a library dictionary and on a result dictionary.\<close>

definition item :: "(string \<Rightarrow> int option) \<Rightarrow> string \<Rightarrow> exn + int" where
  "item d k = (case d k of None \<Rightarrow> Inl KeyError | Some v \<Rightarrow> Inr v)"

definition getitem :: "pydict \<Rightarrow> string \<Rightarrow> exn + pyval" where
  "getitem d k = (case map_of d k of None \<Rightarrow> Inl KeyError | Some v \<Rightarrow> Inr v)"

text \<open>Sequencing of pure computations that may raise.\<close>

definition seq :: "exn + 'a \<Rightarrow> ('a \<Rightarrow> exn + 'b) \<Rightarrow> exn + 'b" where
  "seq r f = (case r of Inl e \<Rightarrow> Inl e | Inr x \<Rightarrow> f x)"

subsection \<open>Configuration\<close>

definition NUM_ITERATIONS :: int where
  "NUM_ITERATIONS = 100"

definition KEM_ALGORITHMS :: "string list" where
  "KEM_ALGORITHMS = [''Kyber768'']"

definition SIGNATURE_ALGORITHMS :: "string list" where
  "SIGNATURE_ALGORITHMS = [''Dilithium3'', ''Falcon-512'', ''SPHINCS+-SHA2-128f-simple'']"

definition RESULTS_DIR :: string where
  "RESULTS_DIR = ''results/tables''"

definition OUTPUT_CSV_FILE :: string where
  "OUTPUT_CSV_FILE = RESULTS_DIR @ ''/'' @ ''pqc_benchmark_results.csv''"

subsection \<open>\<^verbatim>\<open>benchmark_kem\<close>\<close>

type_synonym times = "rat list \<times> rat list \<times> rat list"

text \<open>The variables of one iteration, after its three timed steps (lines 57 to 74).\<close>

record kem_locals =
  kem_public_key :: bytes
  kem_secret_key :: bytes
  ciphertext :: bytes
  shared_secret_client :: bytes
  shared_secret_server :: bytes

definition kem_steps :: "('w, 'h) oqs \<Rightarrow> 'h \<Rightarrow> times \<Rightarrow> (kem_locals \<times> times, 'w, 'h) prog" where
  "kem_steps lib kem = (\<lambda>(keygen_times, encaps_times, decaps_times).
     andthen (now lib) (\<lambda>start_time.
     andthen (call (kem_generate_keypair lib kem)) (\<lambda>public_key.
     andthen (call (kem_export_secret_key lib kem)) (\<lambda>secret_key.
     andthen (now lib) (\<lambda>end_time.
     let keygen_times = keygen_times @ [fmul (fsub end_time start_time) 1000] in
     andthen (now lib) (\<lambda>start_time.
     andthen (call (encap_secret lib kem public_key)) (\<lambda>(ct, ss_client).
     andthen (now lib) (\<lambda>end_time.
     let encaps_times = encaps_times @ [fmul (fsub end_time start_time) 1000] in
     andthen (now lib) (\<lambda>start_time.
     andthen (call (decap_secret lib kem secret_key ct)) (\<lambda>ss_server.
     andthen (now lib) (\<lambda>end_time.
     let decaps_times = decaps_times @ [fmul (fsub end_time start_time) 1000] in
     ok (\<lparr>kem_public_key = public_key, kem_secret_key = secret_key, ciphertext = ct,
          shared_secret_client = ss_client, shared_secret_server = ss_server\<rparr>,
         (keygen_times, encaps_times, decaps_times)))))))))))))"

text \<open>One pass through the loop body: the timed steps, then the assertion of line 77.\<close>

definition kem_iteration :: "('w, 'h) oqs \<Rightarrow> 'h \<Rightarrow> times \<Rightarrow> (times, 'w, 'h) prog" where
  "kem_iteration lib kem ts =
     andthen (kem_steps lib kem ts) (\<lambda>(l, ts').
       if shared_secret_client l = shared_secret_server l then ok ts'
       else raise AssertionError)"

definition kem_loop :: "('w, 'h) oqs \<Rightarrow> 'h \<Rightarrow> nat \<Rightarrow> times \<Rightarrow> (times, 'w, 'h) prog" where
  "kem_loop lib kem n = for_range n (kem_iteration lib kem)"

text \<open>The dictionary literal of lines 80 to 90; its values are evaluated in order.\<close>

definition kem_results :: "string \<Rightarrow> (string \<Rightarrow> int option) \<Rightarrow> times \<Rightarrow> exn + pydict" where
  "kem_results kem_name details = (\<lambda>(keygen_times, encaps_times, decaps_times).
     seq (item details ''length_public_key'') (\<lambda>pk.
     seq (item details ''length_secret_key'') (\<lambda>sk.
     seq (item details ''length_ciphertext'') (\<lambda>ct.
     seq (mean keygen_times) (\<lambda>m1.
     seq (mean encaps_times) (\<lambda>m2.
     seq (mean decaps_times) (\<lambda>m3.
     Inr [(''Algorithm'', StrV kem_name),
          (''Type'', StrV ''KEM''),
          (''Public Key (bytes)'', IntV pk),
          (''Secret Key (bytes)'', IntV sk),
          (''Ciphertext (bytes)'', IntV ct),
          (''Signature (bytes)'', StrV ''N/A''),
          (''Keygen (ms)'', FloatV m1),
          (''Encaps/Sign (ms)'', FloatV m2),
          (''Decaps/Verify (ms)'', FloatV m3)])))))))"

definition running_line :: "int \<Rightarrow> line" where
  "running_line num_iterations = Format ''Running {} iterations...'' [Val (IntV num_iterations)]"

definition kem_line :: "string \<Rightarrow> line" where
  "kem_line kem_name = Text (CHR 0x0A # ''--- Benchmarking KEM: '' @ kem_name @ '' ---'')"

text \<open>The body of the \<^verbatim>\<open>with\<close> block (lines 47 to 91).\<close>

definition kem_body :: "('w, 'h) oqs \<Rightarrow> string \<Rightarrow> int \<Rightarrow> 'h \<Rightarrow> (pydict, 'w, 'h) prog" where
  "kem_body lib kem_name num_iterations kem s =
     (let details = kem_details lib kem
      in case kem_loop lib kem (nat num_iterations) ([], [], [])
                (print (running_line num_iterations) s) of
           (Inl e, s') \<Rightarrow> (Inl e, s')
         | (Inr ts, s') \<Rightarrow> (kem_results kem_name details ts, s'))"

definition benchmark_kem :: "('w, 'h) oqs \<Rightarrow> string \<Rightarrow> int \<Rightarrow> (pydict, 'w, 'h) prog" where
  "benchmark_kem lib kem_name num_iterations s =
     with_handle (KeyEncapsulation lib) (kem_free lib) kem_name
       (kem_body lib kem_name num_iterations)
       (print (kem_line kem_name) s)"

subsection \<open>\<^verbatim>\<open>benchmark_sig\<close>\<close>

definition message :: bytes where
  "message = ''This is a sample message for signing.''"

record sig_locals =
  sig_public_key :: bytes
  sig_secret_key :: bytes
  signature :: bytes
  is_valid :: bool

text \<open>Lines 116 to 133; \<open>msg\<close> is the variable \<^verbatim>\<open>message\<close>, bound before the loop.\<close>

definition sig_steps ::
  "('w, 'h) oqs \<Rightarrow> 'h \<Rightarrow> bytes \<Rightarrow> times \<Rightarrow> (sig_locals \<times> times, 'w, 'h) prog" where
  "sig_steps lib sg msg = (\<lambda>(keygen_times, sign_times, verify_times).
     andthen (now lib) (\<lambda>start_time.
     andthen (call (sig_generate_keypair lib sg)) (\<lambda>public_key.
     andthen (call (sig_export_secret_key lib sg)) (\<lambda>secret_key.
     andthen (now lib) (\<lambda>end_time.
     let keygen_times = keygen_times @ [fmul (fsub end_time start_time) 1000] in
     andthen (now lib) (\<lambda>start_time.
     andthen (call (sign lib sg msg secret_key)) (\<lambda>sgn.
     andthen (now lib) (\<lambda>end_time.
     let sign_times = sign_times @ [fmul (fsub end_time start_time) 1000] in
     andthen (now lib) (\<lambda>start_time.
     andthen (call (verify lib sg msg sgn public_key)) (\<lambda>valid.
     andthen (now lib) (\<lambda>end_time.
     let verify_times = verify_times @ [fmul (fsub end_time start_time) 1000] in
     ok (\<lparr>sig_public_key = public_key, sig_secret_key = secret_key, signature = sgn,
          is_valid = valid\<rparr>,
         (keygen_times, sign_times, verify_times)))))))))))))"

text \<open>The timed steps, then the assertion of line 135.\<close>

definition sig_iteration ::
  "('w, 'h) oqs \<Rightarrow> 'h \<Rightarrow> bytes \<Rightarrow> times \<Rightarrow> (times, 'w, 'h) prog" where
  "sig_iteration lib sg msg ts =
     andthen (sig_steps lib sg msg ts) (\<lambda>(l, ts').
       if is_valid l then ok ts' else raise AssertionError)"

definition sig_loop ::
  "('w, 'h) oqs \<Rightarrow> 'h \<Rightarrow> bytes \<Rightarrow> nat \<Rightarrow> times \<Rightarrow> (times, 'w, 'h) prog" where
  "sig_loop lib sg msg n = for_range n (sig_iteration lib sg msg)"

definition sig_results :: "string \<Rightarrow> (string \<Rightarrow> int option) \<Rightarrow> times \<Rightarrow> exn + pydict" where
  "sig_results sig_name details = (\<lambda>(keygen_times, sign_times, verify_times).
     seq (item details ''length_public_key'') (\<lambda>pk.
     seq (item details ''length_secret_key'') (\<lambda>sk.
     seq (item details ''length_signature'') (\<lambda>sl.
     seq (mean keygen_times) (\<lambda>m1.
     seq (mean sign_times) (\<lambda>m2.
     seq (mean verify_times) (\<lambda>m3.
     Inr [(''Algorithm'', StrV sig_name),
          (''Type'', StrV ''Signature''),
          (''Public Key (bytes)'', IntV pk),
          (''Secret Key (bytes)'', IntV sk),
          (''Ciphertext (bytes)'', StrV ''N/A''),
          (''Signature (bytes)'', IntV sl),
          (''Keygen (ms)'', FloatV m1),
          (''Encaps/Sign (ms)'', FloatV m2),
          (''Decaps/Verify (ms)'', FloatV m3)])))))))"

definition sig_line :: "string \<Rightarrow> line" where
  "sig_line sig_name = Text (CHR 0x0A # ''--- Benchmarking Signature: '' @ sig_name @ '' ---'')"

text \<open>The body of the \<^verbatim>\<open>with\<close> block (lines 107 to 148).\<close>

definition sig_body :: "('w, 'h) oqs \<Rightarrow> string \<Rightarrow> int \<Rightarrow> 'h \<Rightarrow> (pydict, 'w, 'h) prog" where
  "sig_body lib sig_name num_iterations sg s =
     (let details = sig_details lib sg
      in case sig_loop lib sg message (nat num_iterations) ([], [], [])
                (print (running_line num_iterations) s) of
           (Inl e, s') \<Rightarrow> (Inl e, s')
         | (Inr ts, s') \<Rightarrow> (sig_results sig_name details ts, s'))"

definition benchmark_sig :: "('w, 'h) oqs \<Rightarrow> string \<Rightarrow> int \<Rightarrow> (pydict, 'w, 'h) prog" where
  "benchmark_sig lib sig_name num_iterations s =
     with_handle (Signature lib) (sig_free lib) sig_name
       (sig_body lib sig_name num_iterations)
       (print (sig_line sig_name) s)"

subsection \<open>\<^verbatim>\<open>main\<close>\<close>

definition skip_message :: "string \<Rightarrow> line" where
  "skip_message alg = Text (''Algorithm '' @ alg @ '' is not enabled in this build of liboqs. Skipping.'')"

text \<open>
  One of the two loops of lines 161 to 174: \<^verbatim>\<open>MechanismNotEnabledError\<close> is caught, any
  other exception leaves the loop and \<^verbatim>\<open>main\<close>.
\<close>

fun run_targets ::
  "(string \<Rightarrow> (pydict, 'w, 'h) prog) \<Rightarrow> string list \<Rightarrow> pydict list \<Rightarrow> (pydict list, 'w, 'h) prog" where
  "run_targets bench [] all_results s = (Inr all_results, s)"
| "run_targets bench (alg # algs) all_results s =
     (case bench alg s of
        (Inr result, s') \<Rightarrow> run_targets bench algs (all_results @ [result]) s'
      | (Inl e, s') \<Rightarrow>
          if e = MechanismNotEnabledError
          then run_targets bench algs all_results (print (skip_message alg) s')
          else (Inl e, s'))"

definition banner :: string where
  "banner = replicate 50 CHR ''=''"

text \<open>Lines 154 to 174: the banner and the two loops, giving \<^verbatim>\<open>all_results\<close>.\<close>

definition print_banner :: "('w, 'h) state \<Rightarrow> ('w, 'h) state" where
  "print_banner s =
     print (Text banner) (print (Text ''Starting PQC Algorithm Benchmark'') (print (Text banner) s))"

definition run_kems ::
  "('w, 'h) oqs \<Rightarrow> int \<Rightarrow> string list \<Rightarrow> pydict list \<Rightarrow> (pydict list, 'w, 'h) prog" where
  "run_kems lib n = run_targets (\<lambda>alg. benchmark_kem lib alg n)"

definition run_sigs ::
  "('w, 'h) oqs \<Rightarrow> int \<Rightarrow> string list \<Rightarrow> pydict list \<Rightarrow> (pydict list, 'w, 'h) prog" where
  "run_sigs lib n = run_targets (\<lambda>alg. benchmark_sig lib alg n)"

definition run_benchmarks ::
  "('w, 'h) oqs \<Rightarrow> string list \<Rightarrow> string list \<Rightarrow> int \<Rightarrow> (pydict list, 'w, 'h) prog" where
  "run_benchmarks lib kems sigs n s =
     andthen (run_kems lib n kems []) (run_sigs lib n sigs) (print_banner s)"

text \<open>\<^verbatim>\<open>os.makedirs(path, exist_ok=True)\<close>: the directory and its ancestors exist afterwards.\<close>

definition path_prefixes :: "string \<Rightarrow> string list" where
  "path_prefixes p =
     map (\<lambda>i. take i p) (filter (\<lambda>i. i = length p \<or> p ! i = CHR ''/'') [1..<Suc (length p)])"

definition makedirs :: "string \<Rightarrow> ('w, 'h) state \<Rightarrow> ('w, 'h) state" where
  "makedirs path s = s\<lparr>dirs := dirs s \<union> set (path_prefixes path)\<rparr>"

text \<open>\<^verbatim>\<open>open(path, 'w')\<close> creates or empties the file; a written row is appended to it.\<close>

definition open_w :: "string \<Rightarrow> ('w, 'h) state \<Rightarrow> ('w, 'h) state" where
  "open_w path s = s\<lparr>files := (files s)(path \<mapsto> [])\<rparr>"

definition append_row :: "string \<Rightarrow> pyval list \<Rightarrow> ('w, 'h) state \<Rightarrow> ('w, 'h) state" where
  "append_row path cells s =
     s\<lparr>files := (files s)(path \<mapsto> (case files s path of None \<Rightarrow> [] | Some rows \<Rightarrow> rows) @ [cells])\<rparr>"

text \<open>
  \<^verbatim>\<open>csv.DictWriter\<close> with its defaults: a row with a key outside the field names raises
  \<^verbatim>\<open>ValueError\<close>, a missing key is written as the empty string; \<^verbatim>\<open>writerows\<close> writes row
  by row, so the rows before a failing one are in the file.
\<close>

definition dict_to_list :: "string list \<Rightarrow> pydict \<Rightarrow> exn + pyval list" where
  "dict_to_list fieldnames rowdict =
     (if list_ex (\<lambda>k. k \<notin> set fieldnames) (map fst rowdict) then Inl ValueError
      else Inr (map (\<lambda>k. case map_of rowdict k of None \<Rightarrow> StrV [] | Some v \<Rightarrow> v) fieldnames))"

definition writeheader :: "string list \<Rightarrow> string \<Rightarrow> ('w, 'h) state \<Rightarrow> ('w, 'h) state" where
  "writeheader fieldnames path s = append_row path (map StrV fieldnames) s"

fun writerows :: "string list \<Rightarrow> string \<Rightarrow> pydict list \<Rightarrow> (unit, 'w, 'h) prog" where
  "writerows fieldnames path [] s = (Inr (), s)"
| "writerows fieldnames path (r # rs) s =
     (case dict_to_list fieldnames r of
        Inl e \<Rightarrow> (Inl e, s)
      | Inr cells \<Rightarrow> writerows fieldnames path rs (append_row path cells s))"

text \<open>The console table of lines 195 to 207.\<close>

definition header_str :: string where
  "header_str = ''{:<25} | {:<10} | {:>10} | {:>10} | {:>10} | {:>10}''"

text \<open>\<^verbatim>\<open>f"{v:.3f}"\<close>: defined on numbers, \<^verbatim>\<open>ValueError\<close> on a string.\<close>

definition fixed3 :: "pyval \<Rightarrow> exn + fmtarg" where
  "fixed3 v = (case v of FloatV x \<Rightarrow> Inr (Fixed3 x) | IntV i \<Rightarrow> Inr (Fixed3 (double (of_int i)))
               | StrV _ \<Rightarrow> Inl ValueError)"

definition summary_line :: "pydict \<Rightarrow> exn + line" where
  "summary_line res =
     seq (getitem res ''Algorithm'') (\<lambda>a.
     seq (getitem res ''Type'') (\<lambda>t.
     seq (seq (getitem res ''Keygen (ms)'') fixed3) (\<lambda>k.
     seq (seq (getitem res ''Encaps/Sign (ms)'') fixed3) (\<lambda>e.
     seq (seq (getitem res ''Decaps/Verify (ms)'') fixed3) (\<lambda>d.
     Inr (Format header_str
           [Val a, Val t, k, e, d,
            Val (case map_of res ''Signature (bytes)'' of None \<Rightarrow> StrV ''N/A'' | Some v \<Rightarrow> v)]))))))"

fun print_summary :: "pydict list \<Rightarrow> (unit, 'w, 'h) prog" where
  "print_summary [] s = (Inr (), s)"
| "print_summary (res # rest) s =
     (case summary_line res of
        Inl e \<Rightarrow> (Inl e, s)
      | Inr l \<Rightarrow> print_summary rest (print l s))"

text \<open>Lines 176 to 207: the early return on no results, the CSV file, the console table.\<close>

definition save_results :: "pydict list \<Rightarrow> (unit, 'w, 'h) prog" where
  "save_results all_results s =
     (if all_results = [] then (Inr (), print (Text ''No results to save. Exiting.'') s)
      else
        let s1 = makedirs RESULTS_DIR s;
            header = map fst (hd all_results);
            s2 = writeheader header OUTPUT_CSV_FILE (open_w OUTPUT_CSV_FILE s1)
        in case writerows header OUTPUT_CSV_FILE all_results s2 of
             (Inl e, s3) \<Rightarrow> (Inl e, s3)
           | (Inr _, s3) \<Rightarrow>
               let s4 = print (Text banner)
                          (print (Text (''Benchmark finished. Results saved to '' @ [CHR 0x27]
                                        @ OUTPUT_CSV_FILE @ [CHR 0x27]))
                            (print (Text (CHR 0x0A # banner)) s3));
                   s5 = print (Text (replicate 85 CHR ''-''))
                          (print (Format header_str
                                   [Val (StrV ''Algorithm''), Val (StrV ''Type''),
                                    Val (StrV ''Keygen(ms)''), Val (StrV ''Sign(ms)''),
                                    Val (StrV ''Verify(ms)''), Val (StrV ''SigSize(B)'')])
                            (print (Text (CHR 0x0A # ''Benchmark Summary:'')) s4))
               in print_summary all_results s5)"

text \<open>
  \<^verbatim>\<open>main\<close> over any configuration, and \<^verbatim>\<open>main\<close> itself, over the configuration of the
  script.
\<close>

definition main_on ::
  "('w, 'h) oqs \<Rightarrow> string list \<Rightarrow> string list \<Rightarrow> int \<Rightarrow> (unit, 'w, 'h) prog" where
  "main_on lib kems sigs n = andthen (run_benchmarks lib kems sigs n) save_results"

definition main :: "('w, 'h) oqs \<Rightarrow> (unit, 'w, 'h) prog" where
  "main lib = main_on lib KEM_ALGORITHMS SIGNATURE_ALGORITHMS NUM_ITERATIONS"

subsection \<open>A test double of the library\<close>

text \<open>
  A deterministic library for running the model: the world is a clock that counts eighths
  of a second, a handle is the algorithm's name, key generation takes 2 ticks (7 for a
  signature scheme), encapsulation 3, decapsulation 5, signing 11 and verification 13.
  Only the algorithms in \<open>enabled\<close> can be constructed; those in \<open>faulty\<close> decapsulate to
  a wrong secret and reject every signature; those in \<open>crashing\<close> raise in key generation.
\<close>

definition stub :: "string list \<Rightarrow> string list \<Rightarrow> string list \<Rightarrow> (nat, string) oqs" where
  "stub enabled faulty crashing =
     \<lparr>perf_counter = (\<lambda>w. (of_nat w / 8, w)),
      KeyEncapsulation = (\<lambda>name w.
        (if name \<in> set enabled then Inr name else Inl MechanismNotEnabledError, w)),
      kem_details = (\<lambda>h. map_of [(''length_public_key'', 1184), (''length_secret_key'', 2400),
                                  (''length_ciphertext'', 1088)]),
      kem_generate_keypair = (\<lambda>h w.
        (if h \<in> set crashing then Inl (OtherError ''RuntimeError'') else Inr ''pk'', w + 2)),
      kem_export_secret_key = (\<lambda>h w. (Inr ''sk'', w)),
      encap_secret = (\<lambda>h pk w. (Inr (''ct'', ''ss''), w + 3)),
      decap_secret = (\<lambda>h sk ct w. (Inr (if h \<in> set faulty then ''xx'' else ''ss''), w + 5)),
      kem_free = (\<lambda>h w. w + 100),
      Signature = (\<lambda>name w.
        (if name \<in> set enabled then Inr name else Inl MechanismNotEnabledError, w)),
      sig_details = (\<lambda>h. map_of [(''length_public_key'', 1952), (''length_secret_key'', 4000),
                                  (''length_signature'', 3293)]),
      sig_generate_keypair = (\<lambda>h w.
        (if h \<in> set crashing then Inl (OtherError ''RuntimeError'') else Inr ''pk'', w + 7)),
      sig_export_secret_key = (\<lambda>h w. (Inr ''sk'', w)),
      sign = (\<lambda>h msg sk w. (Inr (''signed:'' @ msg), w + 11)),
      verify = (\<lambda>h msg sg pk w. (Inr (h \<notin> set faulty \<and> sg = ''signed:'' @ msg), w + 13)),
      sig_free = (\<lambda>h w. w + 1000)\<rparr>"

definition init :: "(nat, string) state" where
  "init = \<lparr>world = 0, stdout = [], dirs = {}, files = Map.empty, handles = []\<rparr>"

subsection \<open>Specification predicates\<close>

text \<open>
  Of the library, only a constructor signals that a mechanism is not enabled: no
  operation on an acquired handle does.
\<close>

definition only_constructors_signal :: "('w, 'h) oqs \<Rightarrow> bool" where
  "only_constructors_signal lib =
     (\<forall>h w. fst (kem_generate_keypair lib h w) \<noteq> Inl MechanismNotEnabledError
          \<and> fst (kem_export_secret_key lib h w) \<noteq> Inl MechanismNotEnabledError
          \<and> (\<forall>pk. fst (encap_secret lib h pk w) \<noteq> Inl MechanismNotEnabledError)
          \<and> (\<forall>sk ct. fst (decap_secret lib h sk ct w) \<noteq> Inl MechanismNotEnabledError)
          \<and> fst (sig_generate_keypair lib h w) \<noteq> Inl MechanismNotEnabledError
          \<and> fst (sig_export_secret_key lib h w) \<noteq> Inl MechanismNotEnabledError
          \<and> (\<forall>m sk. fst (sign lib h m sk w) \<noteq> Inl MechanismNotEnabledError)
          \<and> (\<forall>m sg pk. fst (verify lib h m sg pk w) \<noteq> Inl MechanismNotEnabledError))"

text \<open>The column names of the report, and the two shapes of a result record.\<close>

definition HEADER :: "string list" where
  "HEADER = [''Algorithm'', ''Type'', ''Public Key (bytes)'', ''Secret Key (bytes)'',
             ''Ciphertext (bytes)'', ''Signature (bytes)'', ''Keygen (ms)'',
             ''Encaps/Sign (ms)'', ''Decaps/Verify (ms)'']"

definition kem_record :: "string \<Rightarrow> pydict \<Rightarrow> bool" where
  "kem_record name r =
     (\<exists>pk sk ct m1 m2 m3.
        r = zip HEADER [StrV name, StrV ''KEM'', IntV pk, IntV sk, IntV ct, StrV ''N/A'',
                        FloatV m1, FloatV m2, FloatV m3])"

definition sig_record :: "string \<Rightarrow> pydict \<Rightarrow> bool" where
  "sig_record name r =
     (\<exists>pk sk sl m1 m2 m3.
        r = zip HEADER [StrV name, StrV ''Signature'', IntV pk, IntV sk, StrV ''N/A'', IntV sl,
                        FloatV m1, FloatV m2, FloatV m3])"

definition result_record :: "pydict \<Rightarrow> bool" where
  "result_record r = (\<exists>name. kem_record name r \<or> sig_record name r)"

text \<open>From \<open>s\<close> to \<open>s'\<close> only the world changed and the console grew.\<close>

definition console_only :: "('w, 'h) state \<Rightarrow> ('w, 'h) state \<Rightarrow> bool" where
  "console_only s s' =
     (prefix (stdout s) (stdout s') \<and> dirs s' = dirs s \<and> files s' = files s
      \<and> handles s' = handles s)"

text \<open>A computation that touches nothing but the world.\<close>

definition world_only :: "('a, 'w, 'h) prog \<Rightarrow> bool" where
  "world_only m = (\<forall>s. \<exists>w. snd (m s) = s\<lparr>world := w\<rparr>)"

text \<open>
  One KEM iteration as a sequence of calls on the library, from the world \<open>w\<close> to the
  world \<open>w'\<close>, each call starting in the world the previous one left: a clock reading, key
  generation and export of the secret key, a reading; a reading, encapsulation against
  that public key, a reading; a reading, decapsulation of that ciphertext with that secret
  key, a reading. \<open>l\<close> holds the keys, the ciphertext and the two secrets; \<open>d\<close> holds the
  three durations in milliseconds, each computed from the two readings around its step.
\<close>

definition kem_chain ::
  "('w, 'h) oqs \<Rightarrow> 'h \<Rightarrow> 'w \<Rightarrow> kem_locals \<Rightarrow> rat \<times> rat \<times> rat \<Rightarrow> 'w \<Rightarrow> bool" where
  "kem_chain lib kem w l d w' =
     (\<exists>t0 w1 w2 w3 t1 w4 t2 w5 w6 t3 w7 t4 w8 w9 t5.
        perf_counter lib w = (t0, w1)
      \<and> kem_generate_keypair lib kem w1 = (Inr (kem_public_key l), w2)
      \<and> kem_export_secret_key lib kem w2 = (Inr (kem_secret_key l), w3)
      \<and> perf_counter lib w3 = (t1, w4)
      \<and> perf_counter lib w4 = (t2, w5)
      \<and> encap_secret lib kem (kem_public_key l) w5
          = (Inr (ciphertext l, shared_secret_client l), w6)
      \<and> perf_counter lib w6 = (t3, w7)
      \<and> perf_counter lib w7 = (t4, w8)
      \<and> decap_secret lib kem (kem_secret_key l) (ciphertext l) w8
          = (Inr (shared_secret_server l), w9)
      \<and> perf_counter lib w9 = (t5, w')
      \<and> d = (fmul (fsub (double t1) (double t0)) 1000,
             fmul (fsub (double t3) (double t2)) 1000,
             fmul (fsub (double t5) (double t4)) 1000))"

text \<open>
  Likewise one signature iteration over the message \<open>msg\<close>: key generation and export,
  signing \<open>msg\<close> with that secret key, verifying \<open>msg\<close> and that signature against that
  public key, each between two clock readings; \<open>is_valid l\<close> is the verdict.
\<close>

definition sig_chain ::
  "('w, 'h) oqs \<Rightarrow> 'h \<Rightarrow> bytes \<Rightarrow> 'w \<Rightarrow> sig_locals \<Rightarrow> rat \<times> rat \<times> rat \<Rightarrow> 'w \<Rightarrow> bool" where
  "sig_chain lib sg msg w l d w' =
     (\<exists>t0 w1 w2 w3 t1 w4 t2 w5 w6 t3 w7 t4 w8 w9 t5.
        perf_counter lib w = (t0, w1)
      \<and> sig_generate_keypair lib sg w1 = (Inr (sig_public_key l), w2)
      \<and> sig_export_secret_key lib sg w2 = (Inr (sig_secret_key l), w3)
      \<and> perf_counter lib w3 = (t1, w4)
      \<and> perf_counter lib w4 = (t2, w5)
      \<and> sign lib sg msg (sig_secret_key l) w5 = (Inr (signature l), w6)
      \<and> perf_counter lib w6 = (t3, w7)
      \<and> perf_counter lib w7 = (t4, w8)
      \<and> verify lib sg msg (signature l) (sig_public_key l) w8 = (Inr (is_valid l), w9)
      \<and> perf_counter lib w9 = (t5, w')
      \<and> d = (fmul (fsub (double t1) (double t0)) 1000,
             fmul (fsub (double t3) (double t2)) 1000,
             fmul (fsub (double t5) (double t4)) 1000))"





section \<open>Properties\<close>


subsection \<open>Rounding to a double\<close>

lemma round_half_even_bounds:
  "\<lfloor>y\<rfloor> \<le> round_half_even y" "round_half_even y \<le> \<lfloor>y\<rfloor> + 1"
  by (auto simp: round_half_even_def Let_def)

lemma round_half_even_of_int [simp]: "round_half_even (of_int m) = m"
  by (simp add: round_half_even_def)

lemma round_half_even_le:
  assumes "y \<le> of_int b"
  shows "round_half_even y \<le> b"
proof (cases "y = of_int b")
  case True
  then show ?thesis by simp
next
  case False
  with assms have "y < of_int b" by simp
  then have "\<lfloor>y\<rfloor> < b" by (simp add: floor_less_iff)
  with round_half_even_bounds(2) [of y] show ?thesis by linarith
qed

lemma round_half_even_ge:
  assumes "of_int a \<le> y"
  shows "a \<le> round_half_even y"
proof -
  from assms have "a \<le> \<lfloor>y\<rfloor>" by (simp add: le_floor_iff)
  with round_half_even_bounds(1) [of y] show ?thesis by linarith
qed

lemma exponent_bounds:
  assumes "0 < x"
  shows "- 1074 \<le> exponent x"
    and "x * 2 powi (- exponent x) < 2 ^ 53"
    and "- 1074 < exponent x \<Longrightarrow> 2 ^ 52 \<le> x * 2 powi (- exponent x)"
proof -
  obtain p q where pq: "quotient_of x = (p, q)" by (cases "quotient_of x")
  then have q: "0 < q" and x: "x = of_int p / of_int q"
    using quotient_of_denom_pos quotient_of_div by auto
  with assms have p: "0 < p" by (simp add: zero_less_divide_iff)
  define e0 where "e0 = bitlen p - bitlen q - 53"
  define e1 where "e1 = (if 2 ^ 53 \<le> x * 2 powi (- e0) then e0 + 1 else e0)"
  have e: "exponent x = max (- 1074) e1"
    by (simp add: exponent_def pq e0_def e1_def Let_def)
  show "- 1074 \<le> exponent x" by (simp add: e)
  let ?bp = "bitlen p" and ?bq = "bitlen q"
  have bp1: "1 \<le> ?bp" and bq1: "1 \<le> ?bq"
    using p q by (auto simp: bitlen_alt_def)
  have P: "2 powi (?bp - 1) \<le> (of_int p :: rat)" "(of_int p :: rat) < 2 powi ?bp"
  proof -
    from bitlen_bounds [OF p] have "2 ^ nat (?bp - 1) \<le> p" "p < 2 ^ nat ?bp" by auto
    then have "(of_int (2 ^ nat (?bp - 1)) :: rat) \<le> of_int p"
      "(of_int p :: rat) < of_int (2 ^ nat ?bp)"
      by (simp_all only: of_int_le_iff of_int_less_iff)
    then show "2 powi (?bp - 1) \<le> (of_int p :: rat)" "(of_int p :: rat) < 2 powi ?bp"
      using bp1 by (simp_all add: power_int_nonneg_exp)
  qed
  have Q: "2 powi (?bq - 1) \<le> (of_int q :: rat)" "(of_int q :: rat) < 2 powi ?bq"
  proof -
    from bitlen_bounds [OF q] have "2 ^ nat (?bq - 1) \<le> q" "q < 2 ^ nat ?bq" by auto
    then have "(of_int (2 ^ nat (?bq - 1)) :: rat) \<le> of_int q"
      "(of_int q :: rat) < of_int (2 ^ nat ?bq)"
      by (simp_all only: of_int_le_iff of_int_less_iff)
    then show "2 powi (?bq - 1) \<le> (of_int q :: rat)" "(of_int q :: rat) < 2 powi ?bq"
      using bq1 by (simp_all add: power_int_nonneg_exp)
  qed
  have qpos: "(0 :: rat) < of_int q" using q by simp
  have xub: "x < 2 powi (?bp - ?bq + 1)"
  proof -
    have "x < 2 powi ?bp / of_int q"
      unfolding x using P(2) qpos by (simp add: divide_strict_right_mono)
    also have "\<dots> \<le> 2 powi ?bp / 2 powi (?bq - 1)"
      using Q(1) by (intro divide_left_mono) (auto intro: mult_pos_pos qpos)
    also have "\<dots> = 2 powi (?bp - (?bq - 1))"
      by (simp add: power_int_diff)
    finally show ?thesis by (simp add: algebra_simps)
  qed
  have xlb: "2 powi (?bp - 1 - ?bq) < x"
  proof -
    have "2 powi (?bp - 1 - ?bq) = (2 :: rat) powi (?bp - 1) / 2 powi ?bq"
      by (simp add: power_int_diff)
    also have "\<dots> < 2 powi (?bp - 1) / of_int q"
      using Q(2) qpos by (intro divide_strict_left_mono) (auto intro: mult_pos_pos)
    also have "\<dots> \<le> x"
      unfolding x using P(1) qpos by (simp add: divide_right_mono)
    finally show ?thesis .
  qed
  have scale: "(0 :: rat) < 2 powi (- e0)" by simp
  have y0: "2 ^ 52 < x * 2 powi (- e0)" "x * 2 powi (- e0) < 2 ^ 54"
  proof -
    have "2 powi (?bp - 1 - ?bq) * 2 powi (- e0) < x * 2 powi (- e0)"
      using xlb scale by (rule mult_strict_right_mono)
    moreover have "2 powi (?bp - 1 - ?bq) * 2 powi (- e0) = (2 :: rat) powi 52"
      unfolding e0_def by (simp add: power_int_add [symmetric])
    ultimately show "2 ^ 52 < x * 2 powi (- e0)" by simp
    have "x * 2 powi (- e0) < 2 powi (?bp - ?bq + 1) * 2 powi (- e0)"
      using xub scale by (rule mult_strict_right_mono)
    moreover have "2 powi (?bp - ?bq + 1) * 2 powi (- e0) = (2 :: rat) powi 54"
      unfolding e0_def by (simp add: power_int_add [symmetric])
    ultimately show "x * 2 powi (- e0) < 2 ^ 54" by simp
  qed
  have y1: "2 ^ 52 \<le> x * 2 powi (- e1)" "x * 2 powi (- e1) < 2 ^ 53"
  proof -
    have half: "x * 2 powi (- e0 - 1) = x * 2 powi (- e0) / 2"
      by (simp add: power_int_diff)
    show "2 ^ 52 \<le> x * 2 powi (- e1)" "x * 2 powi (- e1) < 2 ^ 53"
      using y0 by (auto simp: e1_def half)
  qed
  show "x * 2 powi (- exponent x) < 2 ^ 53"
  proof (cases "- 1074 \<le> e1")
    case True
    then show ?thesis using y1 by (simp add: e max_def)
  next
    case False
    then have ex: "exponent x = - 1074" by (simp add: e)
    have "x * 2 powi (- exponent x) = x * 2 powi (- e1) * 2 powi (e1 + 1074)"
      unfolding ex by (simp add: power_int_add [symmetric] mult.assoc)
    also have "\<dots> \<le> x * 2 powi (- e1) * 1"
    proof (rule mult_left_mono)
      from False have "e1 + 1074 \<le> 0" by simp
      then show "(2 :: rat) powi (e1 + 1074) \<le> 1"
        by (metis one_le_numeral power_int_0_right power_int_increasing)
      show "0 \<le> x * 2 powi (- e1)" using assms by simp
    qed
    finally show ?thesis using y1 by simp
  qed
  show "2 ^ 52 \<le> x * 2 powi (- exponent x)" if "- 1074 < exponent x"
    using that y1 by (simp add: e max_def split: if_splits)
qed

lemma exponent_unique:
  assumes "0 < x" and "- 1074 \<le> e" and "x * 2 powi (- e) < 2 ^ 53"
    and "- 1074 < e \<Longrightarrow> 2 ^ 52 \<le> x * 2 powi (- e)"
  shows "exponent x = e"
proof -
  have gap: False
    if "a < b" "- 1074 \<le> a" "2 ^ 52 \<le> x * 2 powi (- b)" "x * 2 powi (- a) < 2 ^ 53"
    for a b :: int
  proof -
    define u where "u = x * 2 powi (- b)"
    define v where "v = x * 2 powi (- a)"
    from that(1) have "- b + 1 \<le> - a" by simp
    then have "(2 :: rat) powi (- b + 1) \<le> 2 powi (- a)"
      by (intro power_int_increasing) auto
    then have "x * 2 powi (- b + 1) \<le> v"
      unfolding v_def using assms(1) by (simp add: mult_left_mono)
    moreover have pw: "(2 :: rat) powi (- b + 1) = 2 powi (- b) * 2"
      using power_int_add [of "2 :: rat" "- b" 1] by simp
    have "x * 2 powi (- b + 1) = u * 2"
      unfolding u_def by (simp only: pw mult.assoc)
    ultimately have "u * 2 \<le> v" by simp
    moreover from that(3,4) have "2 ^ 52 \<le> u" "v < 2 ^ 53"
      by (simp_all add: u_def v_def)
    ultimately show False by simp
  qed
  let ?e = "exponent x"
  note b = exponent_bounds [OF assms(1)]
  show ?thesis
  proof (rule ccontr)
    assume "?e \<noteq> e"
    then consider "?e < e" | "e < ?e" by linarith
    then show False
    proof cases
      case 1
      with b(1) have "- 1074 < e" by simp
      from gap [OF 1 b(1) assms(4) [OF this] b(2)] show False .
    next
      case 2
      with assms(2) have "- 1074 < ?e" by simp
      from gap [OF 2 assms(2) b(3) [OF this] assms(3)] show False .
    qed
  qed
qed

lemma double_0 [simp]: "double 0 = 0"
  by (simp add: double_def)

lemma double_minus: "double (- x) = - double x"
  by (simp add: double_def sgn_minus)

lemma double_idem_pos:
  assumes "0 < x"
  shows "double (double x) = double x"
proof -
  let ?e = "exponent x"
  let ?y = "x * 2 powi (- ?e)"
  let ?m = "round_half_even ?y"
  note b = exponent_bounds [OF assms]
  have dx: "double x = of_int ?m * 2 powi ?e"
    using assms by (simp add: double_def)
  have y0: "0 \<le> ?y" using assms by simp
  have m0: "0 \<le> ?m" using y0 round_half_even_ge [of 0 ?y] by simp
  have mub: "?m \<le> 2 ^ 53"
    using b(2) round_half_even_le [of ?y "2 ^ 53"] by simp
  show ?thesis
  proof (cases "?m = 0")
    case True
    then show ?thesis by (simp add: dx)
  next
    case False
    with m0 have mpos: "0 < ?m" by simp
    then have zpos: "0 < double x" by (simp add: dx)
    show ?thesis
    proof (cases "?m = 2 ^ 53")
      case True
      have z: "double x = 2 ^ 52 * 2 powi (?e + 1)"
        by (simp add: dx True power_int_add)
      have ez: "exponent (double x) = ?e + 1"
      proof (rule exponent_unique [OF zpos])
        show "- 1074 \<le> ?e + 1" using b(1) by simp
        have "double x * 2 powi (- (?e + 1)) = 2 ^ 52"
          unfolding z by (simp add: mult.assoc power_int_add [symmetric])
        then show "double x * 2 powi (- (?e + 1)) < 2 ^ 53"
          "2 ^ 52 \<le> double x * 2 powi (- (?e + 1))"
          by simp_all
      qed
      have "double x * 2 powi (- (?e + 1)) = of_int (2 ^ 52)"
        unfolding z by (simp add: mult.assoc power_int_add [symmetric])
      then have "round_half_even (double x * 2 powi (- exponent (double x))) = 2 ^ 52"
        by (simp only: ez round_half_even_of_int)
      then have "double (double x) = of_int (2 ^ 52) * 2 powi (?e + 1)"
        using zpos by (simp add: double_def [of "double x"] ez)
      then show ?thesis by (simp add: z)
    next
      case False
      with mub have mlt: "?m < 2 ^ 53" by simp
      have sc: "double x * 2 powi (- ?e) = of_int ?m"
        unfolding dx by (simp add: mult.assoc power_int_add [symmetric])
      have ez: "exponent (double x) = ?e"
      proof (rule exponent_unique [OF zpos b(1)])
        show "double x * 2 powi (- ?e) < 2 ^ 53"
          using mlt unfolding sc by (metis of_int_less_iff of_int_numeral of_int_power)
        show "2 ^ 52 \<le> double x * 2 powi (- ?e)" if "- 1074 < ?e"
        proof -
          from b(3) [OF that] have "of_int (2 ^ 52) \<le> ?y" by simp
          then have "2 ^ 52 \<le> ?m" by (rule round_half_even_ge)
          then show ?thesis
            unfolding sc by (metis of_int_le_iff of_int_numeral of_int_power)
        qed
      qed
      have "round_half_even (double x * 2 powi (- exponent (double x))) = ?m"
        by (simp only: ez sc round_half_even_of_int)
      then have "double (double x) = of_int ?m * 2 powi ?e"
        using zpos by (simp add: double_def [of "double x"] ez)
      then show ?thesis by (simp add: dx)
    qed
  qed
qed

lemma double_idem [simp]: "double (double x) = double x"
proof (cases "0 < x")
  case True
  then show ?thesis by (rule double_idem_pos)
next
  case False
  show ?thesis
  proof (cases "x = 0")
    case True
    then show ?thesis by simp
  next
    case nz: False
    with False have "0 < - x" by simp
    from double_idem_pos [OF this] show ?thesis by (simp add: double_minus)
  qed
qed




text \<open>Numbers with at most 53 significant bits are doubles.\<close>

lemma double_exact_pos:
  assumes m: "0 < m" "m < 2 ^ 53" and e: "- 1074 \<le> e"
  shows "double (of_int m * 2 powi e) = of_int m * 2 powi e"
proof -
  define x :: rat where "x = of_int m * 2 powi e"
  have xpos: "0 < x" using m(1) by (simp add: x_def)
  let ?e = "exponent x"
  note b = exponent_bounds [OF xpos]
  have scale: "x * 2 powi (- ?e) = of_int m * 2 powi (e - ?e)"
    unfolding x_def by (simp add: mult.assoc power_int_add [symmetric])
  have le: "?e \<le> e"
  proof (rule ccontr)
    assume "\<not> ?e \<le> e"
    then have gt: "e < ?e" by simp
    then have lt: "e - ?e \<le> - 1" by simp
    from e gt have "- 1074 < ?e" by (rule le_less_trans)
    from b(3) [OF this] have low: "2 ^ 52 \<le> of_int m * (2 :: rat) powi (e - ?e)"
      by (simp only: scale)
    from lt have "(2 :: rat) powi (e - ?e) \<le> 2 powi (- 1)"
      by (intro power_int_increasing) auto
    then have "of_int m * (2 :: rat) powi (e - ?e) \<le> of_int m * 2 powi (- 1)"
      using m(1) by (intro mult_left_mono) auto
    also have "\<dots> = of_int m / 2" by (simp add: power_int_minus_divide)
    also have "\<dots> < 2 ^ 53 / 2"
    proof -
      from m(2) have "(of_int m :: rat) < of_int (2 ^ 53)" by (simp only: of_int_less_iff)
      then show ?thesis by simp
    qed
    finally have "of_int m * (2 :: rat) powi (e - ?e) < 2 ^ 52" by simp
    with low show False by simp
  qed
  define k where "k = nat (e - ?e)"
  from le have "(2 :: rat) powi (e - ?e) = 2 ^ k"
    by (simp add: k_def power_int_def)
  then have sc: "x * 2 powi (- ?e) = of_int (m * 2 ^ k)"
    by (simp add: scale)
  have unscale: "of_int (m * 2 ^ k) * (2 :: rat) powi ?e = x"
  proof -
    have "x = x * 2 powi (- ?e) * 2 powi ?e"
      by (simp add: mult.assoc power_int_add [symmetric])
    then show ?thesis by (simp only: sc)
  qed
  have "double x = of_int (round_half_even (x * 2 powi (- ?e))) * 2 powi ?e"
    using xpos by (simp add: double_def)
  also have "\<dots> = of_int (m * 2 ^ k) * 2 powi ?e"
    by (simp only: sc round_half_even_of_int)
  finally show ?thesis by (simp only: unscale) (simp only: x_def)
qed

lemma double_eighths:
  assumes "of_int \<lfloor>x * 8\<rfloor> = x * 8" and "\<bar>x * 8\<bar> < 2 ^ 53"
  shows "double x = x"
proof -
  have pos: "double y = y" if "0 < y" "of_int \<lfloor>y * 8\<rfloor> = y * 8" "y * 8 < 2 ^ 53" for y :: rat
  proof -
    define m where "m = \<lfloor>y * 8\<rfloor>"
    from that(2) have my: "of_int m = y * 8" by (simp add: m_def)
    with that(1) have "(0 :: rat) < of_int m" by simp
    then have m0: "0 < m" by simp
    from my that(3) have "(of_int m :: rat) < of_int (2 ^ 53)" by simp
    then have m1: "m < 2 ^ 53" by (simp only: of_int_less_iff)
    from my have y: "y = of_int m * 2 powi (- 3)"
      by (simp add: power_int_minus_divide)
    from double_exact_pos [OF m0 m1, of "- 3"] show ?thesis by (simp only: y)
  qed
  show ?thesis
  proof (cases "0 < x")
    case True
    with assms show ?thesis by (intro pos) auto
  next
    case False
    show ?thesis
    proof (cases "x = 0")
      case True
      then show ?thesis by simp
    next
      case nz: False
      with False have neg: "0 < - x" by simp
      have "- x * 8 = - (x * 8)" by simp
      also have "\<dots> = - of_int \<lfloor>x * 8\<rfloor>" by (simp only: assms(1))
      also have "\<dots> = of_int (- \<lfloor>x * 8\<rfloor>)" by simp
      finally have "- x * 8 = of_int (- \<lfloor>x * 8\<rfloor>)" .
      then have "of_int \<lfloor>- x * 8\<rfloor> = - x * 8" by (simp only: floor_of_int)
      moreover from assms(2) neg have "- x * 8 < 2 ^ 53" by simp
      ultimately have "double (- x) = - x" using neg by (intro pos)
      then show ?thesis by (simp add: double_minus)
    qed
  qed
qed

text \<open>
  The subtraction and the multiplication round: with the clock readings 0.018 and 0.031
  (the doubles nearest to these decimals) the script records 13.000000000000002 ms, not 13.
\<close>

lemma duration_is_rounded:
  "fmul (fsub (double (31 / 1000)) (double (18 / 1000))) 1000
     = 7318349394477057 / 562949953421312"
  by code_simp

text \<open>The mean of three exactly representable durations need not be one.\<close>

lemma mean_is_rounded:
  "mean [125 / 64, 375 / 32, 125 / 4] = Inr (8429589146282667 / 562949953421312)"
  by code_simp


subsection \<open>Sequencing and frames\<close>


lemma andthen_Inl [simp]: "m s = (Inl e, s') \<Longrightarrow> andthen m f s = (Inl e, s')"
  by (simp add: andthen_def)

lemma andthen_Inr [simp]: "m s = (Inr x, s') \<Longrightarrow> andthen m f s = f x s'"
  by (simp add: andthen_def)

lemma andthen_cases:
  assumes "andthen m f s = (r, s2)"
  obtains (fails) e where "m s = (Inl e, s2)" "r = Inl e"
        | (goes) x s1 where "m s = (Inr x, s1)" "f x s1 = (r, s2)"
  using assms by (auto simp: andthen_def split: prod.splits sum.splits)


lemma world_only_ok: "world_only (ok x)"
  unfolding world_only_def ok_def
  by (rule allI, rule_tac x = "world s" in exI) simp

lemma world_only_raise: "world_only (raise e)"
  unfolding world_only_def raise_def
  by (rule allI, rule_tac x = "world s" in exI) simp

lemma world_only_now: "world_only (now lib)"
  by (auto simp: world_only_def now_def split: prod.splits)

lemma world_only_call: "world_only (call f)"
  by (auto simp: world_only_def call_def split: prod.splits)

lemma world_only_andthen:
  assumes "world_only m" and "\<And>x. world_only (f x)"
  shows "world_only (andthen m f)"
  unfolding world_only_def
proof
  fix s
  obtain r s1 where m: "m s = (r, s1)" by (cases "m s")
  from assms(1) obtain w1 where "snd (m s) = s\<lparr>world := w1\<rparr>"
    unfolding world_only_def by blast
  with m have s1: "s1 = s\<lparr>world := w1\<rparr>" by simp
  show "\<exists>w. snd (andthen m f s) = s\<lparr>world := w\<rparr>"
  proof (cases r)
    case (Inl e)
    with m have "snd (andthen m f s) = s\<lparr>world := w1\<rparr>" by (simp add: s1)
    then show ?thesis ..
  next
    case (Inr x)
    from assms(2) obtain w2 where "snd (f x s1) = s1\<lparr>world := w2\<rparr>"
      unfolding world_only_def by blast
    then have "snd (f x s1) = s\<lparr>world := w2\<rparr>" by (simp add: s1)
    with m Inr have "snd (andthen m f s) = s\<lparr>world := w2\<rparr>" by simp
    then show ?thesis ..
  qed
qed

lemma world_only_kem_steps: "world_only (kem_steps lib kem ts)"
  by (cases ts)
     (simp add: kem_steps_def Let_def split_def world_only_andthen world_only_now
        world_only_call world_only_ok)

lemma world_only_sig_steps: "world_only (sig_steps lib sg msg ts)"
  by (cases ts)
     (simp add: sig_steps_def Let_def split_def world_only_andthen world_only_now
        world_only_call world_only_ok)

lemma world_only_kem_iteration: "world_only (kem_iteration lib kem ts)"
  by (simp add: kem_iteration_def split_def world_only_andthen world_only_kem_steps
        world_only_ok world_only_raise)

lemma world_only_sig_iteration: "world_only (sig_iteration lib sg msg ts)"
  by (simp add: sig_iteration_def split_def world_only_andthen world_only_sig_steps
        world_only_ok world_only_raise)

lemma world_only_for_range:
  assumes "\<And>a. world_only (body a)"
  shows "world_only (for_range n body a)"
proof (induction n arbitrary: a)
  case 0
  have "for_range 0 body a = ok a" by (rule ext) (simp add: ok_def)
  then show ?case by (simp add: world_only_ok)
next
  case (Suc n)
  have "for_range (Suc n) body a = andthen (body a) (for_range n body)"
    by (rule ext) (simp add: andthen_def)
  with assms Suc show ?case by (simp add: world_only_andthen)
qed

lemma world_only_kem_loop: "world_only (kem_loop lib kem n ts)"
  by (simp add: kem_loop_def world_only_for_range world_only_kem_iteration)

lemma world_only_sig_loop: "world_only (sig_loop lib sg msg n ts)"
  by (simp add: sig_loop_def world_only_for_range world_only_sig_iteration)

lemma world_onlyD:
  assumes "world_only m" and "m s = (r, s')"
  shows "stdout s' = stdout s" and "dirs s' = dirs s" and "files s' = files s"
    and "handles s' = handles s"
proof -
  from assms obtain w where eq: "s' = s\<lparr>world := w\<rparr>"
    unfolding world_only_def by (metis snd_conv)
  show "stdout s' = stdout s" by (simp add: eq)
  show "dirs s' = dirs s" by (simp add: eq)
  show "files s' = files s" by (simp add: eq)
  show "handles s' = handles s" by (simp add: eq)
qed

subsection \<open>The counted loop\<close>

lemma for_range_add:
  "for_range (m + k) body a s = andthen (for_range m body a) (for_range k body) s"
proof (induction m arbitrary: a s)
  case 0
  show ?case by simp
next
  case (Suc m)
  show ?case
  proof (cases "body a s")
    case (Pair r s1)
    then show ?thesis
      by (cases r) (simp_all add: Suc andthen_def)
  qed
qed


lemma for_range_Suc_end:
  assumes "for_range k body a s = (Inr a1, s1)"
  shows "for_range (Suc k) body a s = body a1 s1"
proof -
  have "for_range (k + 1) body a s = andthen (for_range k body a) (for_range 1 body) s"
    by (rule for_range_add)
  also have "\<dots> = for_range 1 body a1 s1" using assms by simp
  also have "\<dots> = body a1 s1" by (cases "body a1 s1") (auto split: sum.splits)
  finally show ?thesis by simp
qed

lemma for_range_fails:
  assumes "for_range k body a s = (Inr a1, s1)" and "body a1 s1 = (Inl e, s2)" and "k < n"
  shows "for_range n body a s = (Inl e, s2)"
proof -
  from assms(3) obtain j where n: "n = Suc k + j" by (metis less_iff_Suc_add add_Suc)
  have "for_range (Suc k) body a s = (Inl e, s2)"
    by (simp only: for_range_Suc_end [OF assms(1)] assms(2))
  then show ?thesis unfolding n by (simp only: for_range_add andthen_Inl)
qed

subsection \<open>One iteration\<close>

lemma call_cases:
  assumes "call f s = (r, s')"
  obtains w where "f (world s) = (r, w)" and "s' = s\<lparr>world := w\<rparr>"
  using assms by (auto simp: call_def split: prod.splits)

lemma kem_steps_chain:
  assumes "kem_steps lib kem (a, b, c) s = (Inr (l, ts'), s')"
  shows "\<exists>d1 d2 d3. ts' = (a @ [d1], b @ [d2], c @ [d3])
           \<and> kem_chain lib kem (world s) l (d1, d2, d3) (world s')"
  using assms unfolding kem_steps_def kem_chain_def
  by (auto simp: andthen_def now_def call_def ok_def Let_def
           split: prod.splits sum.splits; blast)

lemma kem_steps_append:
  assumes "kem_steps lib kem (a, b, c) s = (Inr (l, ts'), s')"
  shows "\<exists>x y z. ts' = (a @ [x], b @ [y], c @ [z])"
  using kem_steps_chain [OF assms] by blast

lemma sig_steps_chain:
  assumes "sig_steps lib sg msg (a, b, c) s = (Inr (l, ts'), s')"
  shows "\<exists>d1 d2 d3. ts' = (a @ [d1], b @ [d2], c @ [d3])
           \<and> sig_chain lib sg msg (world s) l (d1, d2, d3) (world s')"
  using assms unfolding sig_steps_def sig_chain_def
  by (auto simp: andthen_def now_def call_def ok_def Let_def
           split: prod.splits sum.splits; blast)

lemma sig_steps_append:
  assumes "sig_steps lib sg msg (a, b, c) s = (Inr (l, ts'), s')"
  shows "\<exists>x y z. ts' = (a @ [x], b @ [y], c @ [z])"
  using sig_steps_chain [OF assms] by blast



lemma kem_iteration_cases:
  assumes "kem_iteration lib kem ts s = (r, s')"
  obtains (steps_fail) e where "kem_steps lib kem ts s = (Inl e, s')" and "r = Inl e"
    | (agree) l ts' where "kem_steps lib kem ts s = (Inr (l, ts'), s')"
        and "shared_secret_client l = shared_secret_server l" and "r = Inr ts'"
    | (differ) l ts' where "kem_steps lib kem ts s = (Inr (l, ts'), s')"
        and "shared_secret_client l \<noteq> shared_secret_server l" and "r = Inl AssertionError"
  using assms unfolding kem_iteration_def
  by (elim andthen_cases) (auto simp: ok_def raise_def split: if_splits)

lemma sig_iteration_cases:
  assumes "sig_iteration lib sg msg ts s = (r, s')"
  obtains (steps_fail) e where "sig_steps lib sg msg ts s = (Inl e, s')" and "r = Inl e"
    | (valid) l ts' where "sig_steps lib sg msg ts s = (Inr (l, ts'), s')"
        and "is_valid l" and "r = Inr ts'"
    | (invalid) l ts' where "sig_steps lib sg msg ts s = (Inr (l, ts'), s')"
        and "\<not> is_valid l" and "r = Inl AssertionError"
  using assms unfolding sig_iteration_def
  by (elim andthen_cases) (auto simp: ok_def raise_def split: if_splits)

lemma kem_iteration_agree:
  assumes "kem_steps lib kem ts s = (Inr (l, ts'), s')"
    and "shared_secret_client l = shared_secret_server l"
  shows "kem_iteration lib kem ts s = (Inr ts', s')"
  using assms by (simp add: kem_iteration_def ok_def)

lemma kem_iteration_differ:
  assumes "kem_steps lib kem ts s = (Inr (l, ts'), s')"
    and "shared_secret_client l \<noteq> shared_secret_server l"
  shows "kem_iteration lib kem ts s = (Inl AssertionError, s')"
  using assms by (simp add: kem_iteration_def raise_def)

lemma sig_iteration_valid:
  assumes "sig_steps lib sg msg ts s = (Inr (l, ts'), s')" and "is_valid l"
  shows "sig_iteration lib sg msg ts s = (Inr ts', s')"
  using assms by (simp add: sig_iteration_def ok_def)

lemma sig_iteration_invalid:
  assumes "sig_steps lib sg msg ts s = (Inr (l, ts'), s')" and "\<not> is_valid l"
  shows "sig_iteration lib sg msg ts s = (Inl AssertionError, s')"
  using assms by (simp add: sig_iteration_def raise_def)

subsection \<open>One target\<close>

lemma enter_cases:
  assumes "enter ctor name s = (r, s1)"
  obtains (unavailable) e w where "ctor name (world s) = (Inl e, w)" and "r = Inl e"
      and "s1 = s\<lparr>world := w\<rparr>"
    | (acquired) h w where "ctor name (world s) = (Inr h, w)" and "r = Inr h"
      and "s1 = s\<lparr>world := w, handles := h # handles s\<rparr>"
  using assms by (auto simp: enter_def split: prod.splits sum.splits)

lemma with_handle_unavailable:
  assumes "enter ctor name s = (Inl e, s1)"
  shows "with_handle ctor free name body s = (Inl e, s1)"
  using assms by (simp add: with_handle_def)

lemma with_handle_acquired:
  assumes "enter ctor name s = (Inr h, s1)" and "body h s1 = (r, s2)"
  shows "with_handle ctor free name body s = (r, leave free h s2)"
  using assms by (simp add: with_handle_def)

lemma with_handle_cases:
  assumes "with_handle ctor free name body s = (r, s')"
  obtains (unavailable) e where "enter ctor name s = (Inl e, s')" and "r = Inl e"
    | (acquired) h s1 s2 where "enter ctor name s = (Inr h, s1)" and "body h s1 = (r, s2)"
      and "s' = leave free h s2"
  using assms by (auto simp: with_handle_def split: prod.splits sum.splits)

lemma kem_body_cases:
  assumes "kem_body lib a n kem s = (r, s')"
  obtains (loop_fails) e where
      "kem_loop lib kem (nat n) ([], [], []) (print (running_line n) s) = (Inl e, s')"
      and "r = Inl e"
    | (loop_done) ts where
      "kem_loop lib kem (nat n) ([], [], []) (print (running_line n) s) = (Inr ts, s')"
      and "r = kem_results a (kem_details lib kem) ts"
  using assms by (auto simp: kem_body_def split: prod.splits sum.splits)

lemma sig_body_cases:
  assumes "sig_body lib a n sg s = (r, s')"
  obtains (loop_fails) e where
      "sig_loop lib sg message (nat n) ([], [], []) (print (running_line n) s) = (Inl e, s')"
      and "r = Inl e"
    | (loop_done) ts where
      "sig_loop lib sg message (nat n) ([], [], []) (print (running_line n) s) = (Inr ts, s')"
      and "r = sig_results a (sig_details lib sg) ts"
  using assms by (auto simp: sig_body_def split: prod.splits sum.splits)

lemma kem_body_loop_fails:
  assumes "kem_loop lib kem (nat n) ([], [], []) (print (running_line n) s) = (Inl e, s')"
  shows "kem_body lib a n kem s = (Inl e, s')"
  using assms by (simp add: kem_body_def)

lemma sig_body_loop_fails:
  assumes "sig_loop lib sg message (nat n) ([], [], []) (print (running_line n) s) = (Inl e, s')"
  shows "sig_body lib a n sg s = (Inl e, s')"
  using assms by (simp add: sig_body_def)

text \<open>A failing iteration ends the target with the handle released.\<close>

lemma benchmark_kem_iteration_fails:
  assumes "enter (KeyEncapsulation lib) a (print (kem_line a) s) = (Inr kem, s1)"
    and "kem_loop lib kem k ([], [], []) (print (running_line n) s1) = (Inr ts1, s2)"
    and "k < nat n"
    and "kem_iteration lib kem ts1 s2 = (Inl e, s3)"
  shows "benchmark_kem lib a n s = (Inl e, leave (kem_free lib) kem s3)"
proof -
  have "kem_loop lib kem (nat n) ([], [], []) (print (running_line n) s1) = (Inl e, s3)"
    using assms(2) assms(4) assms(3) unfolding kem_loop_def by (rule for_range_fails)
  then have "kem_body lib a n kem s1 = (Inl e, s3)" by (rule kem_body_loop_fails)
  with assms(1) show ?thesis
    unfolding benchmark_kem_def by (rule with_handle_acquired)
qed

lemma benchmark_sig_iteration_fails:
  assumes "enter (Signature lib) a (print (sig_line a) s) = (Inr sg, s1)"
    and "sig_loop lib sg message k ([], [], []) (print (running_line n) s1) = (Inr ts1, s2)"
    and "k < nat n"
    and "sig_iteration lib sg message ts1 s2 = (Inl e, s3)"
  shows "benchmark_sig lib a n s = (Inl e, leave (sig_free lib) sg s3)"
proof -
  have "sig_loop lib sg message (nat n) ([], [], []) (print (running_line n) s1) = (Inl e, s3)"
    using assms(2) assms(4) assms(3) unfolding sig_loop_def by (rule for_range_fails)
  then have "sig_body lib a n sg s1 = (Inl e, s3)" by (rule sig_body_loop_fails)
  with assms(1) show ?thesis
    unfolding benchmark_sig_def by (rule with_handle_acquired)
qed

subsection \<open>The loops over the targets\<close>

lemma run_targets_append:
  "run_targets bench (xs @ ys) acc s
     = andthen (run_targets bench xs acc) (run_targets bench ys) s"
proof (induction xs arbitrary: acc s)
  case Nil
  show ?case by simp
next
  case (Cons x xs)
  show ?case
  proof (cases "bench x s")
    case (Pair r s1)
    then show ?thesis by (cases r) (simp_all add: Cons andthen_def)
  qed
qed

lemma run_targets_fatal:
  assumes "bench a s = (Inl e, s')" and "e \<noteq> MechanismNotEnabledError"
  shows "run_targets bench (a # post) acc s = (Inl e, s')"
  using assms by simp

lemma run_targets_skip:
  assumes "bench a s = (Inl MechanismNotEnabledError, s')"
  shows "run_targets bench (a # post) acc s
           = run_targets bench post acc (print (skip_message a) s')"
  using assms by simp

lemma run_targets_record:
  assumes "bench a s = (Inr r, s')"
  shows "run_targets bench (a # post) acc s = run_targets bench post (acc @ [r]) s'"
  using assms by simp

lemma main_on_kem_fatal:
  assumes "run_kems lib n pre [] (print_banner s0) = (Inr acc, s)"
    and "benchmark_kem lib a n s = (Inl e, s')" and "e \<noteq> MechanismNotEnabledError"
  shows "main_on lib (pre @ a # post) sigs n s0 = (Inl e, s')"
proof -
  have "run_kems lib n (pre @ a # post) [] (print_banner s0) = (Inl e, s')"
    using assms unfolding run_kems_def by (simp add: run_targets_append)
  then show ?thesis by (simp add: main_on_def run_benchmarks_def)
qed

lemma main_on_sig_fatal:
  assumes "run_kems lib n kems [] (print_banner s0) = (Inr acc1, s1)"
    and "run_sigs lib n pre acc1 s1 = (Inr acc, s)"
    and "benchmark_sig lib a n s = (Inl e, s')" and "e \<noteq> MechanismNotEnabledError"
  shows "main_on lib kems (pre @ a # post) n s0 = (Inl e, s')"
proof -
  have "run_sigs lib n (pre @ a # post) acc1 s1 = (Inl e, s')"
    using assms(2-4) unfolding run_sigs_def by (simp add: run_targets_append)
  with assms(1) show ?thesis by (simp add: main_on_def run_benchmarks_def)
qed

subsection \<open>What a target leaves behind\<close>

lemma console_only_refl: "console_only s s"
  by (simp add: console_only_def)

lemma console_only_trans:
  "console_only s s1 \<Longrightarrow> console_only s1 s2 \<Longrightarrow> console_only s s2"
  by (auto simp: console_only_def)

lemma console_only_print: "console_only s (print l s)"
  by (simp add: console_only_def print_def)

lemma console_only_world: "console_only s (s\<lparr>world := w\<rparr>)"
  by (simp add: console_only_def)

lemma world_only_console_only:
  assumes "world_only m" and "m s = (r, s')"
  shows "console_only s s'"
  using world_onlyD [OF assms] by (simp add: console_only_def)

lemma with_handle_console_only:
  assumes body: "\<And>h s1 r s2. body h s1 = (r, s2) \<Longrightarrow> console_only s1 s2"
    and run: "with_handle ctor free name body s = (r, s')"
  shows "console_only s s'"
  using run
proof (cases rule: with_handle_cases)
  case (unavailable e)
  then show ?thesis
    by (elim enter_cases) (simp_all add: console_only_def)
next
  case (acquired h s1 s2)
  from acquired(1) have s1: "stdout s1 = stdout s" "dirs s1 = dirs s" "files s1 = files s"
    "handles s1 = h # handles s"
    by (elim enter_cases; simp)+
  from body [OF acquired(2)] have "console_only s1 s2" .
  with s1 acquired(3) show ?thesis
    by (simp add: console_only_def leave_def)
qed

lemma kem_body_console_only:
  assumes "kem_body lib a n kem s = (r, s')"
  shows "console_only s s'"
proof -
  have "console_only (print (running_line n) s) s'"
    using assms
    by (cases rule: kem_body_cases) (rule world_only_console_only [OF world_only_kem_loop], assumption)+
  with console_only_print show ?thesis by (rule console_only_trans)
qed

lemma sig_body_console_only:
  assumes "sig_body lib a n sg s = (r, s')"
  shows "console_only s s'"
proof -
  have "console_only (print (running_line n) s) s'"
    using assms
    by (cases rule: sig_body_cases) (rule world_only_console_only [OF world_only_sig_loop], assumption)+
  with console_only_print show ?thesis by (rule console_only_trans)
qed

lemma benchmark_kem_console_only:
  assumes "benchmark_kem lib a n s = (r, s')"
  shows "console_only s s'"
proof -
  have "console_only (print (kem_line a) s) s'"
    using kem_body_console_only assms [unfolded benchmark_kem_def]
    by (rule with_handle_console_only)
  with console_only_print show ?thesis by (rule console_only_trans)
qed

lemma benchmark_sig_console_only:
  assumes "benchmark_sig lib a n s = (r, s')"
  shows "console_only s s'"
proof -
  have "console_only (print (sig_line a) s) s'"
    using sig_body_console_only assms [unfolded benchmark_sig_def]
    by (rule with_handle_console_only)
  with console_only_print show ?thesis by (rule console_only_trans)
qed

lemma run_targets_console_only:
  assumes bench: "\<And>a s r s'. bench a s = (r, s') \<Longrightarrow> console_only s s'"
    and run: "run_targets bench algs acc s = (r, s')"
  shows "console_only s s'"
  using run
proof (induction algs arbitrary: acc s)
  case Nil
  then show ?case by (simp add: console_only_refl)
next
  case (Cons a algs)
  obtain r1 s1 where b: "bench a s = (r1, s1)" by (cases "bench a s")
  from bench [OF b] have c1: "console_only s s1" .
  show ?case
  proof (cases r1)
    case (Inr rec)
    with Cons.prems b have "run_targets bench algs (acc @ [rec]) s1 = (r, s')" by simp
    from Cons.IH [OF this] c1 show ?thesis by (blast intro: console_only_trans)
  next
    case (Inl e)
    show ?thesis
    proof (cases "e = MechanismNotEnabledError")
      case True
      with Cons.prems b Inl
      have "run_targets bench algs acc (print (skip_message a) s1) = (r, s')" by simp
      from Cons.IH [OF this] c1 console_only_print [of s1] show ?thesis
        by (blast intro: console_only_trans)
    next
      case False
      with Cons.prems b Inl c1 show ?thesis by simp
    qed
  qed
qed

lemma run_kems_console_only:
  "run_kems lib n algs acc s = (r, s') \<Longrightarrow> console_only s s'"
  unfolding run_kems_def
  by (rule run_targets_console_only [where bench = "\<lambda>alg. benchmark_kem lib alg n"])
     (rule benchmark_kem_console_only)

lemma run_sigs_console_only:
  "run_sigs lib n algs acc s = (r, s') \<Longrightarrow> console_only s s'"
  unfolding run_sigs_def
  by (rule run_targets_console_only [where bench = "\<lambda>alg. benchmark_sig lib alg n"])
     (rule benchmark_sig_console_only)

lemma console_only_print_banner: "console_only s (print_banner s)"
  by (simp add: console_only_def print_banner_def print_def)

lemma run_benchmarks_console_only:
  assumes "run_benchmarks lib kems sigs n s = (r, s')"
  shows "console_only s s'"
proof -
  have "console_only (print_banner s) s'"
    using assms unfolding run_benchmarks_def
    by (elim andthen_cases) (blast intro: console_only_trans run_kems_console_only
          run_sigs_console_only)+
  with console_only_print_banner show ?thesis by (rule console_only_trans)
qed

subsection \<open>Result records\<close>

lemma kem_results_record:
  assumes "kem_results a d ts = Inr r"
  shows "kem_record a r"
  using assms
  by (cases ts)
     (auto simp: kem_results_def kem_record_def HEADER_def seq_def item_def mean_def
           split: option.splits if_splits)

lemma sig_results_record:
  assumes "sig_results a d ts = Inr r"
  shows "sig_record a r"
  using assms
  by (cases ts)
     (auto simp: sig_results_def sig_record_def HEADER_def seq_def item_def mean_def
           split: option.splits if_splits)



lemma kem_results_not_skip: "kem_results a d ts \<noteq> Inl MechanismNotEnabledError"
  by (cases ts)
     (auto simp: kem_results_def seq_def item_def mean_def split: option.splits if_splits)

lemma sig_results_not_skip: "sig_results a d ts \<noteq> Inl MechanismNotEnabledError"
  by (cases ts)
     (auto simp: sig_results_def seq_def item_def mean_def split: option.splits if_splits)

lemma benchmark_kem_record:
  assumes "benchmark_kem lib a n s = (Inr r, s')"
  shows "kem_record a r"
  using assms unfolding benchmark_kem_def
  by (elim with_handle_cases kem_body_cases) (simp_all add: kem_results_record)

lemma benchmark_sig_record:
  assumes "benchmark_sig lib a n s = (Inr r, s')"
  shows "sig_record a r"
  using assms unfolding benchmark_sig_def
  by (elim with_handle_cases sig_body_cases) (simp_all add: sig_results_record)

lemma result_record_keys: "result_record r \<Longrightarrow> map fst r = HEADER"
  by (auto simp: result_record_def kem_record_def sig_record_def HEADER_def)

lemma result_record_row: "result_record r \<Longrightarrow> dict_to_list HEADER r = Inr (map snd r)"
  by (auto simp: result_record_def kem_record_def sig_record_def HEADER_def dict_to_list_def)

lemma result_record_summary: "result_record r \<Longrightarrow> \<exists>l. summary_line r = Inr l"
  by (auto simp: result_record_def kem_record_def sig_record_def HEADER_def summary_line_def
        seq_def getitem_def fixed3_def)

lemma kem_record_name: "kem_record a r \<Longrightarrow> map_of r ''Algorithm'' = Some (StrV a)"
  by (auto simp: kem_record_def HEADER_def)

lemma sig_record_name: "sig_record a r \<Longrightarrow> map_of r ''Algorithm'' = Some (StrV a)"
  by (auto simp: sig_record_def HEADER_def)

subsection \<open>Writing the report\<close>

lemma writerows_records:
  assumes "\<forall>r\<in>set rs. result_record r" and "files s path = Some rows"
  shows "writerows HEADER path rs s
           = (Inr (), s\<lparr>files := (files s)(path \<mapsto> rows @ map (map snd) rs)\<rparr>)"
  using assms
proof (induction rs arbitrary: s rows)
  case Nil
  then show ?case by (simp add: fun_upd_idem)
next
  case (Cons r rs)
  then have row: "dict_to_list HEADER r = Inr (map snd r)" by (simp add: result_record_row)
  let ?s1 = "append_row path (map snd r) s"
  have f1: "files ?s1 path = Some (rows @ [map snd r])"
    using Cons.prems(2) by (simp add: append_row_def)
  from Cons.prems(1) have "\<forall>r\<in>set rs. result_record r" by simp
  from Cons.IH [OF this f1]
  have IH: "writerows HEADER path rs ?s1
          = (Inr (), ?s1\<lparr>files := (files ?s1)(path \<mapsto> (rows @ [map snd r]) @ map (map snd) rs)\<rparr>)" .
  have st: "?s1\<lparr>files := (files ?s1)(path \<mapsto> (rows @ [map snd r]) @ map (map snd) rs)\<rparr>
          = s\<lparr>files := (files s)(path \<mapsto> rows @ map (map snd) (r # rs))\<rparr>"
    by (simp add: append_row_def)
  have "writerows HEADER path (r # rs) s = writerows HEADER path rs ?s1"
    by (simp add: row)
  then show ?case by (simp only: IH st)
qed

lemma print_summary_records:
  assumes "\<forall>r\<in>set rs. result_record r"
  shows "\<exists>ls. map Inr ls = map summary_line rs
           \<and> print_summary rs s = (Inr (), s\<lparr>stdout := stdout s @ ls\<rparr>)"
  using assms
proof (induction rs arbitrary: s)
  case Nil
  show ?case by simp
next
  case (Cons r rs)
  from Cons.prems have "result_record r" by simp
  from result_record_summary [OF this] obtain l where l: "summary_line r = Inr l" ..
  from Cons.prems have "\<forall>r\<in>set rs. result_record r" by simp
  from Cons.IH [OF this, of "print l s"] obtain ls where ls: "map Inr ls = map summary_line rs"
    "print_summary rs (print l s) = (Inr (), (print l s)\<lparr>stdout := stdout (print l s) @ ls\<rparr>)"
    by blast
  have "map Inr (l # ls) = map summary_line (r # rs)" using l ls(1) by simp
  moreover have "print_summary (r # rs) s = (Inr (), s\<lparr>stdout := stdout s @ (l # ls)\<rparr>)"
    using l ls(2) by (simp add: print_def)
  ultimately show ?case by blast
qed

text \<open>The lines printed between the CSV file and the table rows.\<close>

lemma save_results_records:
  assumes "rs \<noteq> []" and "\<forall>r\<in>set rs. result_record r"
  shows "\<exists>ls s'. save_results rs s = (Inr (), s')
     \<and> map Inr ls = map summary_line rs
     \<and> (\<exists>mid. length mid = 6 \<and> stdout s' = stdout s @ mid @ ls)
     \<and> files s' = (files s)(OUTPUT_CSV_FILE \<mapsto> map StrV HEADER # map (map snd) rs)
     \<and> dirs s' = dirs s \<union> set (path_prefixes RESULTS_DIR)
     \<and> handles s' = handles s \<and> world s' = world s"
proof -
  from assms obtain r0 rest where rs: "rs = r0 # rest" by (cases rs) auto
  with assms(2) have "result_record r0" by simp
  then have hd: "map fst (hd rs) = HEADER" by (simp add: rs result_record_keys)
  let ?s2 = "writeheader HEADER OUTPUT_CSV_FILE (open_w OUTPUT_CSV_FILE (makedirs RESULTS_DIR s))"
  have f2: "files ?s2 OUTPUT_CSV_FILE = Some ([] @ [map StrV HEADER])"
    by (simp add: writeheader_def append_row_def open_w_def makedirs_def)
  have w: "writerows HEADER OUTPUT_CSV_FILE rs ?s2
             = (Inr (), ?s2\<lparr>files := (files ?s2)(OUTPUT_CSV_FILE \<mapsto>
                  ([] @ [map StrV HEADER]) @ map (map snd) rs)\<rparr>)"
    using assms(2) f2 by (rule writerows_records)
  let ?s3 = "?s2\<lparr>files := (files ?s2)(OUTPUT_CSV_FILE \<mapsto> ([] @ [map StrV HEADER]) @ map (map snd) rs)\<rparr>"
  let ?mid = "[Text (CHR 0x0A # banner),
               Text (''Benchmark finished. Results saved to '' @ [CHR 0x27] @ OUTPUT_CSV_FILE @ [CHR 0x27]),
               Text banner,
               Text (CHR 0x0A # ''Benchmark Summary:''),
               Format header_str
                 [Val (StrV ''Algorithm''), Val (StrV ''Type''), Val (StrV ''Keygen(ms)''),
                  Val (StrV ''Sign(ms)''), Val (StrV ''Verify(ms)''), Val (StrV ''SigSize(B)'')],
               Text (replicate 85 CHR ''-'')]"
  let ?s5 = "?s3\<lparr>stdout := stdout s @ ?mid\<rparr>"
  from print_summary_records [OF assms(2), of ?s5]
  obtain ls where ls: "map Inr ls = map summary_line rs"
    "print_summary rs ?s5 = (Inr (), ?s5\<lparr>stdout := stdout ?s5 @ ls\<rparr>)" by blast
  have "save_results rs s = (Inr (), ?s5\<lparr>stdout := stdout ?s5 @ ls\<rparr>)"
    using assms(1) ls(2)
    by (simp add: save_results_def Let_def hd w)
       (simp add: print_def writeheader_def append_row_def open_w_def makedirs_def)
  moreover have "files (?s5\<lparr>stdout := stdout ?s5 @ ls\<rparr>)
      = (files s)(OUTPUT_CSV_FILE \<mapsto> map StrV HEADER # map (map snd) rs)"
    by (simp add: writeheader_def append_row_def open_w_def makedirs_def)
  moreover have "dirs (?s5\<lparr>stdout := stdout ?s5 @ ls\<rparr>) = dirs s \<union> set (path_prefixes RESULTS_DIR)"
    by (simp add: writeheader_def append_row_def open_w_def makedirs_def)
  moreover have "handles (?s5\<lparr>stdout := stdout ?s5 @ ls\<rparr>) = handles s"
    "world (?s5\<lparr>stdout := stdout ?s5 @ ls\<rparr>) = world s"
    by (simp_all add: writeheader_def append_row_def open_w_def makedirs_def)
  moreover have "stdout (?s5\<lparr>stdout := stdout ?s5 @ ls\<rparr>) = stdout s @ ?mid @ ls" "length ?mid = 6"
    by simp_all
  ultimately show ?thesis using ls(1) by blast
qed

subsection \<open>The run as a whole\<close>

lemma run_targets_records:
  assumes bench: "\<And>a s r s'. bench a s = (Inr r, s') \<Longrightarrow> P r"
    and acc: "\<forall>r\<in>set acc. P r"
    and run: "run_targets bench algs acc s = (Inr res, s')"
  shows "\<forall>r\<in>set res. P r"
  using acc run
proof (induction algs arbitrary: acc s)
  case Nil
  then show ?case by simp
next
  case (Cons a algs)
  obtain r1 s1 where b: "bench a s = (r1, s1)" by (cases "bench a s")
  show ?case
  proof (cases r1)
    case (Inr rec)
    with b bench have "P rec" by blast
    with Cons.prems(1) have "\<forall>r\<in>set (acc @ [rec]). P r" by simp
    moreover from Cons.prems(2) b Inr
    have "run_targets bench algs (acc @ [rec]) s1 = (Inr res, s')" by simp
    ultimately show ?thesis by (rule Cons.IH)
  next
    case (Inl e)
    with Cons.prems(2) b
    have "run_targets bench algs acc (print (skip_message a) s1) = (Inr res, s')"
      by (simp split: if_splits)
    with Cons.prems(1) show ?thesis by (rule Cons.IH)
  qed
qed

lemma run_targets_never_skip_error:
  "run_targets bench algs acc s = (Inl e, s') \<Longrightarrow> e \<noteq> MechanismNotEnabledError"
proof (induction algs arbitrary: acc s)
  case Nil
  then show ?case by simp
next
  case (Cons a algs)
  obtain r1 s1 where b: "bench a s = (r1, s1)" by (cases "bench a s")
  with Cons show ?case
    by (cases r1) (auto split: if_splits)
qed

lemma run_benchmarks_cases:
  assumes "run_benchmarks lib kems sigs n s = (r, s')"
  obtains (kem_fails) e where "run_kems lib n kems [] (print_banner s) = (Inl e, s')"
      and "r = Inl e"
    | (kems_done) acc1 s1 where "run_kems lib n kems [] (print_banner s) = (Inr acc1, s1)"
      and "run_sigs lib n sigs acc1 s1 = (r, s')"
  using assms unfolding run_benchmarks_def by (elim andthen_cases) auto

lemma run_benchmarks_records:
  assumes "run_benchmarks lib kems sigs n s = (Inr res, s')"
  shows "\<forall>r\<in>set res. result_record r"
  using assms
proof (cases rule: run_benchmarks_cases)
  case (kem_fails e)
  then show ?thesis by simp
next
  case (kems_done acc1 s1)
  have k: "result_record r" if "benchmark_kem lib a n t = (Inr r, t')" for a t r t'
    using benchmark_kem_record [OF that] by (auto simp: result_record_def)
  have g: "result_record r" if "benchmark_sig lib a n t = (Inr r, t')" for a t r t'
    using benchmark_sig_record [OF that] by (auto simp: result_record_def)
  have none: "\<forall>r\<in>set []. result_record r" by simp
  have first: "\<forall>r\<in>set acc1. result_record r"
    using k none kems_done(1) [unfolded run_kems_def]
    by (rule run_targets_records [where bench = "\<lambda>alg. benchmark_kem lib alg n"])
  show ?thesis
    using g first kems_done(2) [unfolded run_sigs_def]
    by (rule run_targets_records [where bench = "\<lambda>alg. benchmark_sig lib alg n"])
qed

lemma run_benchmarks_never_skip_error:
  assumes "run_benchmarks lib kems sigs n s = (Inl e, s')"
  shows "e \<noteq> MechanismNotEnabledError"
  using assms
  by (cases rule: run_benchmarks_cases)
     (auto simp: run_kems_def run_sigs_def dest: run_targets_never_skip_error)

lemma main_on_saves:
  assumes "run_benchmarks lib kems sigs n s = (Inr rs, s1)"
  shows "main_on lib kems sigs n s = save_results rs s1"
  using assms by (simp add: main_on_def)

lemma main_on_fails:
  assumes "main_on lib kems sigs n s = (Inl e, s')"
  shows "run_benchmarks lib kems sigs n s = (Inl e, s')"
  using assms unfolding main_on_def
proof (cases rule: andthen_cases)
  case (fails e')
  then show ?thesis by simp
next
  case (goes rs s1)
  from goes(1) have recs: "\<forall>r\<in>set rs. result_record r" by (rule run_benchmarks_records)
  show ?thesis
  proof (cases "rs = []")
    case True
    with goes(2) show ?thesis by (simp add: save_results_def)
  next
    case False
    from save_results_records [OF False recs, of s1] goes(2) show ?thesis by auto
  qed
qed

subsection \<open>Correctness checks of the iterations\<close>

lemmas run_defs =
  main_on_def run_benchmarks_def run_kems_def run_sigs_def benchmark_kem_def benchmark_sig_def
  with_handle_def enter_def leave_def kem_body_def sig_body_def kem_loop_def sig_loop_def
  kem_iteration_def sig_iteration_def kem_steps_def sig_steps_def kem_results_def
  sig_results_def andthen_def ok_def raise_def call_def now_def seq_def item_def mean_def
  print_def print_banner_def stub_def init_def fsub_def fmul_def double_eighths

text \<open>
  Claim C1. Take any KEM target \<open>a\<close> of the configuration and any iteration of its loop:
  the targets before it have been processed, its handle \<open>kem\<close> is acquired, \<open>k\<close> iterations
  have passed, and the three timed steps of the next one return the values \<open>l\<close>. Then the
  calls of this iteration form one chain on the library, from the world the loop had
  reached to the world the steps leave: the public key is the one just generated, the
  secret key the one just exported, the client's secret comes from encapsulating against
  that public key, and the server's from decapsulating the resulting ciphertext with that
  secret key. If the two secrets are equal the loop goes on. If
  they differ, the target ends with \<^verbatim>\<open>AssertionError\<close> and so does the whole run, in the
  state right after the failed check (only the handle is released): nothing is retried,
  no later target runs, the error is not turned into a skip. So a target that returns a
  record had equal secrets in this iteration.
\<close>

theorem kem_secrets_agree_or_run_stops:
  assumes "run_kems lib n pre [] (print_banner s0) = (Inr acc, s)"
    and "enter (KeyEncapsulation lib) a (print (kem_line a) s) = (Inr kem, s1)"
    and "kem_loop lib kem k ([], [], []) (print (running_line n) s1) = (Inr ts1, s2)"
    and "k < nat n"
    and "kem_steps lib kem ts1 s2 = (Inr (l, ts2), s3)"
  shows "(\<exists>d. kem_chain lib kem (world s2) l d (world s3))
    \<and> (shared_secret_client l = shared_secret_server l \<longrightarrow>
         kem_loop lib kem (Suc k) ([], [], []) (print (running_line n) s1) = (Inr ts2, s3))
    \<and> (shared_secret_client l \<noteq> shared_secret_server l \<longrightarrow>
         benchmark_kem lib a n s = (Inl AssertionError, leave (kem_free lib) kem s3)
       \<and> main_on lib (pre @ a # post) sigs n s0
           = (Inl AssertionError, leave (kem_free lib) kem s3))
    \<and> (\<forall>r s'. benchmark_kem lib a n s = (Inr r, s') \<longrightarrow>
         shared_secret_client l = shared_secret_server l)"
proof -
  obtain xs ys zs where ts1: "ts1 = (xs, ys, zs)" by (cases ts1)
  have chain: "\<exists>d. kem_chain lib kem (world s2) l d (world s3)"
    using kem_steps_chain [OF assms(5) [unfolded ts1]] by blast
  have goes_on: "kem_loop lib kem (Suc k) ([], [], []) (print (running_line n) s1) = (Inr ts2, s3)"
    if "shared_secret_client l = shared_secret_server l"
  proof -
    have "kem_iteration lib kem ts1 s2 = (Inr ts2, s3)"
      using assms(5) that by (rule kem_iteration_agree)
    then show ?thesis
      unfolding kem_loop_def by (simp only: for_range_Suc_end [OF assms(3) [unfolded kem_loop_def]])
  qed
  have stops: "benchmark_kem lib a n s = (Inl AssertionError, leave (kem_free lib) kem s3)"
    if "shared_secret_client l \<noteq> shared_secret_server l"
  proof -
    have "kem_iteration lib kem ts1 s2 = (Inl AssertionError, s3)"
      using assms(5) that by (rule kem_iteration_differ)
    with assms(2-4) show ?thesis by (rule benchmark_kem_iteration_fails)
  qed
  have run_stops: "main_on lib (pre @ a # post) sigs n s0
                     = (Inl AssertionError, leave (kem_free lib) kem s3)"
    if "shared_secret_client l \<noteq> shared_secret_server l"
    using assms(1) stops [OF that] by (rule main_on_kem_fatal) simp
  have "shared_secret_client l = shared_secret_server l"
    if "benchmark_kem lib a n s = (Inr r, s')" for r s'
  proof (rule ccontr)
    assume "shared_secret_client l \<noteq> shared_secret_server l"
    from stops [OF this] that show False by simp
  qed
  with chain goes_on stops run_stops show ?thesis by blast
qed

theorem kem_secrets_agree_or_run_stops_witness:
  "fst (main_on (stub [''Kyber768''] [''Kyber768''] []) [''Kyber768''] [''Dilithium3''] 2 init)
     = Inl AssertionError
   \<and> (\<exists>d. kem_chain (stub [''Kyber768''] [''Kyber768''] []) ''Kyber768'' 0
         \<lparr>kem_public_key = ''pk'', kem_secret_key = ''sk'', ciphertext = ''ct'',
          shared_secret_client = ''ss'', shared_secret_server = ''xx''\<rparr> d 10)"
proof -
  let ?lib = "stub [''Kyber768''] [''Kyber768''] []"
  let ?l = "\<lparr>kem_public_key = ''pk'', kem_secret_key = ''sk'', ciphertext = ''ct'',
             shared_secret_client = ''ss'', shared_secret_server = ''xx''\<rparr>"
  let ?s = "print_banner init"
  let ?s1 = "(print (kem_line ''Kyber768'') ?s)\<lparr>world := 0, handles := [''Kyber768'']\<rparr>"
  let ?s2 = "print (running_line 2) ?s1"
  let ?st = "kem_steps ?lib ''Kyber768'' ([], [], []) ?s2"
  have h1: "run_kems ?lib 2 [] [] (print_banner init) = (Inr [], ?s)"
    by (simp add: run_kems_def)
  have h2: "enter (KeyEncapsulation ?lib) ''Kyber768'' (print (kem_line ''Kyber768'') ?s)
              = (Inr ''Kyber768'', ?s1)"
    by (simp add: enter_def stub_def print_def print_banner_def init_def)
  have h3: "kem_loop ?lib ''Kyber768'' 0 ([], [], []) ?s2 = (Inr ([], [], []), ?s2)"
    by (simp add: kem_loop_def)
  have h4: "(0::nat) < nat 2" by simp
  have "fst ?st = Inr (?l, ([250], [375], [625]))" by (simp add: run_defs)
  then have h5: "?st = (Inr (?l, ([250], [375], [625])), snd ?st)" by (simp add: prod_eq_iff)
  have w0: "world ?s2 = 0" by (simp add: print_def)
  have w1: "world (snd ?st) = 10" by (simp add: run_defs)
  note r = kem_secrets_agree_or_run_stops [OF h1 h2 h3 h4 h5, of Nil "[''Dilithium3'']"]
  from r have "\<exists>d. kem_chain ?lib ''Kyber768'' (world ?s2) ?l d (world (snd ?st))" by blast
  then have "\<exists>d. kem_chain ?lib ''Kyber768'' 0 ?l d 10" by (simp only: w0 w1)
  moreover from r have "fst (main_on ?lib [''Kyber768''] [''Dilithium3''] 2 init)
                          = Inl AssertionError" by simp
  ultimately show ?thesis by blast
qed

text \<open>
  Claim C2. Take any signature target \<open>a\<close> and any iteration of its loop: the KEM targets
  and the signature targets before it have been processed, its handle \<open>sg\<close> is acquired,
  \<open>k\<close> iterations have passed, and the three timed steps of the next one return the values
  \<open>l\<close>. The message signed and verified is the constant \<open>message\<close>, the same bytes for
  every target and iteration. The calls of this iteration form one chain on the library,
  from the world the loop had reached to the world the steps leave: the public key is the
  one just generated, the secret key the one just exported, the signature is of the
  message under that secret key, and \<open>is_valid\<close> is the verdict on the message, that
  signature and that public key. If the verdict is true the loop goes on; if it is false the
  target and the whole run end with \<^verbatim>\<open>AssertionError\<close>, in the state right after the
  check (only the handle is released). So a target that returns a record had a true
  verdict in this iteration.
\<close>

theorem signature_verifies_or_run_stops:
  assumes "run_kems lib n kems [] (print_banner s0) = (Inr acc1, s')"
    and "run_sigs lib n pre acc1 s' = (Inr acc, s)"
    and "enter (Signature lib) a (print (sig_line a) s) = (Inr sg, s1)"
    and "sig_loop lib sg message k ([], [], []) (print (running_line n) s1) = (Inr ts1, s2)"
    and "k < nat n"
    and "sig_steps lib sg message ts1 s2 = (Inr (l, ts2), s3)"
  shows "message = ''This is a sample message for signing.''
    \<and> (\<exists>d. sig_chain lib sg message (world s2) l d (world s3))
    \<and> (is_valid l \<longrightarrow>
         sig_loop lib sg message (Suc k) ([], [], []) (print (running_line n) s1) = (Inr ts2, s3))
    \<and> (\<not> is_valid l \<longrightarrow>
         benchmark_sig lib a n s = (Inl AssertionError, leave (sig_free lib) sg s3)
       \<and> main_on lib kems (pre @ a # post) n s0
           = (Inl AssertionError, leave (sig_free lib) sg s3))
    \<and> (\<forall>r t. benchmark_sig lib a n s = (Inr r, t) \<longrightarrow> is_valid l)"
proof -
  obtain xs ys zs where ts1: "ts1 = (xs, ys, zs)" by (cases ts1)
  have chain: "\<exists>d. sig_chain lib sg message (world s2) l d (world s3)"
    using sig_steps_chain [OF assms(6) [unfolded ts1]] by blast
  have goes_on: "sig_loop lib sg message (Suc k) ([], [], []) (print (running_line n) s1)
                   = (Inr ts2, s3)" if "is_valid l"
  proof -
    have "sig_iteration lib sg message ts1 s2 = (Inr ts2, s3)"
      using assms(6) that by (rule sig_iteration_valid)
    then show ?thesis
      unfolding sig_loop_def by (simp only: for_range_Suc_end [OF assms(4) [unfolded sig_loop_def]])
  qed
  have stops: "benchmark_sig lib a n s = (Inl AssertionError, leave (sig_free lib) sg s3)"
    if "\<not> is_valid l"
  proof -
    have "sig_iteration lib sg message ts1 s2 = (Inl AssertionError, s3)"
      using assms(6) that by (rule sig_iteration_invalid)
    with assms(3-5) show ?thesis by (rule benchmark_sig_iteration_fails)
  qed
  have run_stops: "main_on lib kems (pre @ a # post) n s0
                     = (Inl AssertionError, leave (sig_free lib) sg s3)" if "\<not> is_valid l"
    using assms(1,2) stops [OF that] by (rule main_on_sig_fatal) simp
  have "is_valid l" if "benchmark_sig lib a n s = (Inr r, t)" for r t
  proof (rule ccontr)
    assume "\<not> is_valid l"
    from stops [OF this] that show False by simp
  qed
  with chain goes_on stops run_stops show ?thesis by (simp add: message_def)
qed

theorem signature_verifies_or_run_stops_witness:
  "fst (main_on (stub [''Dilithium3''] [''Dilithium3''] []) [] [''Dilithium3'', ''Falcon-512''] 2 init)
     = Inl AssertionError
   \<and> (\<exists>d. sig_chain (stub [''Dilithium3''] [''Dilithium3''] []) ''Dilithium3''
         ''This is a sample message for signing.'' 0
         \<lparr>sig_public_key = ''pk'', sig_secret_key = ''sk'',
          signature = ''signed:This is a sample message for signing.'', is_valid = False\<rparr>
         d 31)"
proof -
  let ?lib = "stub [''Dilithium3''] [''Dilithium3''] []"
  let ?l = "\<lparr>sig_public_key = ''pk'', sig_secret_key = ''sk'',
             signature = ''signed:This is a sample message for signing.'', is_valid = False\<rparr>"
  let ?s = "print_banner init"
  let ?s1 = "(print (sig_line ''Dilithium3'') ?s)\<lparr>world := 0, handles := [''Dilithium3'']\<rparr>"
  let ?s2 = "print (running_line 2) ?s1"
  let ?st = "sig_steps ?lib ''Dilithium3'' message ([], [], []) ?s2"
  have h1: "run_kems ?lib 2 [] [] (print_banner init) = (Inr [], ?s)"
    by (simp add: run_kems_def)
  have h2: "run_sigs ?lib 2 [] [] ?s = (Inr [], ?s)"
    by (simp add: run_sigs_def)
  have h3: "enter (Signature ?lib) ''Dilithium3'' (print (sig_line ''Dilithium3'') ?s)
              = (Inr ''Dilithium3'', ?s1)"
    by (simp add: enter_def stub_def print_def print_banner_def init_def)
  have h4: "sig_loop ?lib ''Dilithium3'' message 0 ([], [], []) ?s2 = (Inr ([], [], []), ?s2)"
    by (simp add: sig_loop_def)
  have h5: "(0::nat) < nat 2" by simp
  have "fst ?st = Inr (?l, ([875], [1375], [1625]))" by (simp add: run_defs message_def)
  then have h6: "?st = (Inr (?l, ([875], [1375], [1625])), snd ?st)" by (simp add: prod_eq_iff)
  have w0: "world ?s2 = 0" by (simp add: print_def)
  have w1: "world (snd ?st) = 31" by (simp add: run_defs)
  note r = signature_verifies_or_run_stops [OF h1 h2 h3 h4 h5 h6, of "[''Falcon-512'']"]
  from r have "\<exists>d. sig_chain ?lib ''Dilithium3'' message (world ?s2) ?l d (world (snd ?st))"
    by blast
  then have "\<exists>d. sig_chain ?lib ''Dilithium3'' message 0 ?l d 31"
    by (simp only: w0 w1)
  then have "\<exists>d. sig_chain ?lib ''Dilithium3'' ''This is a sample message for signing.'' 0 ?l d 31"
    by (simp only: message_def)
  moreover from r have "fst (main_on ?lib [] [''Dilithium3'', ''Falcon-512''] 2 init)
                          = Inl AssertionError" by simp
  ultimately show ?thesis by blast
qed

subsection \<open>Failures\<close>

text \<open>
  Claim C4. If a target fails with anything but \<^verbatim>\<open>MechanismNotEnabledError\<close> (the failed
  assertion or any exception of the library), \<^verbatim>\<open>main\<close> ends with that exception in the
  very state the target left: the records \<open>acc\<close> of the targets before it are dropped, no
  target after it runs (\<open>post\<close>, and for a KEM target all signature targets), and neither
  the CSV file nor the results directory has been touched. And however \<^verbatim>\<open>main\<close> fails,
  it fails before anything is written (the file operations themselves being assumed to
  succeed).
\<close>

theorem fatal_failure_leaves_no_report:
  "(run_benchmarks lib pre [] n s0 = (Inr acc, s) \<and> benchmark_kem lib a n s = (Inl e, s')
      \<and> e \<noteq> MechanismNotEnabledError \<longrightarrow>
      main_on lib (pre @ a # post) sigs n s0 = (Inl e, s')
      \<and> files s' = files s0 \<and> dirs s' = dirs s0)
   \<and> (run_benchmarks lib kems pre n s0 = (Inr acc, s) \<and> benchmark_sig lib a n s = (Inl e, s')
      \<and> e \<noteq> MechanismNotEnabledError \<longrightarrow>
      main_on lib kems (pre @ a # post) n s0 = (Inl e, s')
      \<and> files s' = files s0 \<and> dirs s' = dirs s0)
   \<and> (main_on lib kems sigs n s0 = (Inl e, s') \<longrightarrow>
      e \<noteq> MechanismNotEnabledError \<and> files s' = files s0 \<and> dirs s' = dirs s0)"
proof (intro conjI impI)
  assume h: "run_benchmarks lib pre [] n s0 = (Inr acc, s) \<and> benchmark_kem lib a n s = (Inl e, s')
      \<and> e \<noteq> MechanismNotEnabledError"
  then have "run_kems lib n pre [] (print_banner s0) = (Inr acc, s)"
    by (auto elim!: run_benchmarks_cases simp: run_sigs_def)
  with h show "main_on lib (pre @ a # post) sigs n s0 = (Inl e, s')"
    by (blast intro: main_on_kem_fatal)
  from h have "console_only s0 s" "console_only s s'"
    by (blast intro: run_benchmarks_console_only benchmark_kem_console_only)+
  then show "files s' = files s0" "dirs s' = dirs s0"
    by (simp_all add: console_only_def)
next
  assume h: "run_benchmarks lib kems pre n s0 = (Inr acc, s) \<and> benchmark_sig lib a n s = (Inl e, s')
      \<and> e \<noteq> MechanismNotEnabledError"
  then obtain acc1 s1 where "run_kems lib n kems [] (print_banner s0) = (Inr acc1, s1)"
    "run_sigs lib n pre acc1 s1 = (Inr acc, s)"
    by (auto elim!: run_benchmarks_cases)
  with h show "main_on lib kems (pre @ a # post) n s0 = (Inl e, s')"
    by (blast intro: main_on_sig_fatal)
  from h have "console_only s0 s" "console_only s s'"
    by (blast intro: run_benchmarks_console_only benchmark_sig_console_only)+
  then show "files s' = files s0" "dirs s' = dirs s0"
    by (simp_all add: console_only_def)
next
  assume "main_on lib kems sigs n s0 = (Inl e, s')"
  then have r: "run_benchmarks lib kems sigs n s0 = (Inl e, s')" by (rule main_on_fails)
  then show "e \<noteq> MechanismNotEnabledError" by (rule run_benchmarks_never_skip_error)
  from r have "console_only s0 s'" by (rule run_benchmarks_console_only)
  then show "files s' = files s0" "dirs s' = dirs s0"
    by (simp_all add: console_only_def)
qed

theorem fatal_failure_leaves_no_report_witness:
  "fst (main_on (stub [''Kyber768'', ''Dilithium3'', ''Falcon-512''] [] [''Falcon-512''])
          [''Kyber768''] [''Dilithium3'', ''Falcon-512'', ''SPHINCS+-SHA2-128f-simple''] 1 init)
     = Inl (OtherError ''RuntimeError'')
   \<and> files (snd (main_on (stub [''Kyber768'', ''Dilithium3'', ''Falcon-512''] [] [''Falcon-512''])
          [''Kyber768''] [''Dilithium3'', ''Falcon-512'', ''SPHINCS+-SHA2-128f-simple''] 1 init))
       OUTPUT_CSV_FILE = None
   \<and> fst (main_on (stub [''Kyber768''] [] [''Kyber768'']) [''Kyber768''] [''Dilithium3''] 1 init)
     = Inl (OtherError ''RuntimeError'')"
proof -
  let ?lib = "stub [''Kyber768'', ''Dilithium3'', ''Falcon-512''] [] [''Falcon-512'']"
  let ?run = "run_benchmarks ?lib [''Kyber768''] [''Dilithium3''] 1 init"
  let ?acc = "[zip HEADER [StrV ''Kyber768'', StrV ''KEM'', IntV 1184, IntV 2400, IntV 1088,
                          StrV ''N/A'', FloatV 250, FloatV 375, FloatV 625],
               zip HEADER [StrV ''Dilithium3'', StrV ''Signature'', IntV 1952, IntV 4000,
                          StrV ''N/A'', IntV 3293, FloatV 875, FloatV 1375, FloatV 1625]]"
  let ?b = "benchmark_sig ?lib ''Falcon-512'' 1 (snd ?run)"
  have "fst ?run = Inr ?acc" by (simp add: run_defs HEADER_def)
  then have h1: "?run = (Inr ?acc, snd ?run)" by (simp add: prod_eq_iff)
  have "fst ?b = Inl (OtherError ''RuntimeError'')" by (simp add: run_defs)
  then have h2: "?b = (Inl (OtherError ''RuntimeError''), snd ?b)" by (simp add: prod_eq_iff)
  let ?lib' = "stub [''Kyber768''] [] [''Kyber768'']"
  let ?b' = "benchmark_kem ?lib' ''Kyber768'' 1 (print_banner init)"
  have h3: "run_benchmarks ?lib' [] [] 1 init = (Inr [], print_banner init)"
    by (simp add: run_benchmarks_def run_kems_def run_sigs_def)
  have "fst ?b' = Inl (OtherError ''RuntimeError'')" by (simp add: run_defs)
  then have h4: "?b' = (Inl (OtherError ''RuntimeError''), snd ?b')" by (simp add: prod_eq_iff)
  from fatal_failure_leaves_no_report
         [where lib = ?lib and kems = "[''Kyber768'']" and pre = "[''Dilithium3'']" and n = 1
            and ?s0.0 = init and acc = ?acc and s = "snd ?run" and a = "''Falcon-512''"
            and e = "OtherError ''RuntimeError''" and s' = "snd ?b"
            and post = "[''SPHINCS+-SHA2-128f-simple'']"] h1 h2
  have "main_on ?lib [''Kyber768''] [''Dilithium3'', ''Falcon-512'', ''SPHINCS+-SHA2-128f-simple''] 1 init
          = (Inl (OtherError ''RuntimeError''), snd ?b) \<and> files (snd ?b) = files init"
    by simp
  moreover
  from fatal_failure_leaves_no_report
         [where lib = ?lib' and pre = "[]" and n = 1 and ?s0.0 = init and acc = "[]"
            and s = "print_banner init" and a = "''Kyber768''"
            and e = "OtherError ''RuntimeError''" and s' = "snd ?b'" and post = "[]"
            and sigs = "[''Dilithium3'']"] h3 h4
  have "main_on ?lib' [''Kyber768''] [''Dilithium3''] 1 init
          = (Inl (OtherError ''RuntimeError''), snd ?b')"
    by simp
  ultimately show ?thesis by (simp add: init_def)
qed

lemma results_dir_prefixes: "set (path_prefixes RESULTS_DIR) = {''results'', ''results/tables''}"
  by (simp add: path_prefixes_def RESULTS_DIR_def upt_rec nth_Cons')

subsection \<open>The report\<close>

text \<open>
  Claim C5. When the two loops leave at least one record, \<^verbatim>\<open>main\<close> completes and the CSV
  file holds the header Algorithm, Type, Public Key (bytes), Secret Key (bytes),
  Ciphertext (bytes), Signature (bytes), Keygen (ms), Encaps/Sign (ms),
  Decaps/Verify (ms), then one row per record, in order: the values of the record. Every
  record has exactly these nine keys in this order (so has the first one, from which the
  header is read, whatever its category); a KEM row has \<^verbatim>\<open>N/A\<close> in the signature column
  (index 5) and a signature row has it in the ciphertext column (index 4).
\<close>

theorem report_has_fixed_columns:
  assumes "run_benchmarks lib kems sigs n s = (Inr all_results, s1)" and "all_results \<noteq> []"
  shows "fst (main_on lib kems sigs n s) = Inr ()
    \<and> files (snd (main_on lib kems sigs n s)) OUTPUT_CSV_FILE
        = Some (map StrV [''Algorithm'', ''Type'', ''Public Key (bytes)'', ''Secret Key (bytes)'',
                          ''Ciphertext (bytes)'', ''Signature (bytes)'', ''Keygen (ms)'',
                          ''Encaps/Sign (ms)'', ''Decaps/Verify (ms)'']
                # map (map snd) all_results)
    \<and> map fst (hd all_results)
        = [''Algorithm'', ''Type'', ''Public Key (bytes)'', ''Secret Key (bytes)'',
           ''Ciphertext (bytes)'', ''Signature (bytes)'', ''Keygen (ms)'',
           ''Encaps/Sign (ms)'', ''Decaps/Verify (ms)'']
    \<and> (\<forall>r\<in>set all_results.
          map fst r = [''Algorithm'', ''Type'', ''Public Key (bytes)'', ''Secret Key (bytes)'',
                       ''Ciphertext (bytes)'', ''Signature (bytes)'', ''Keygen (ms)'',
                       ''Encaps/Sign (ms)'', ''Decaps/Verify (ms)'']
        \<and> (map snd r ! 1 = StrV ''KEM'' \<and> map snd r ! 5 = StrV ''N/A''
           \<or> map snd r ! 1 = StrV ''Signature'' \<and> map snd r ! 4 = StrV ''N/A''))"
proof -
  from assms(1) have recs: "\<forall>r\<in>set all_results. result_record r"
    by (rule run_benchmarks_records)
  from save_results_records [OF assms(2) recs, of s1] main_on_saves [OF assms(1)]
  have "fst (main_on lib kems sigs n s) = Inr ()"
    and "files (snd (main_on lib kems sigs n s)) OUTPUT_CSV_FILE
           = Some (map StrV HEADER # map (map snd) all_results)"
    by auto
  moreover have "map fst r = HEADER
      \<and> (map snd r ! 1 = StrV ''KEM'' \<and> map snd r ! 5 = StrV ''N/A''
         \<or> map snd r ! 1 = StrV ''Signature'' \<and> map snd r ! 4 = StrV ''N/A'')"
    if "r \<in> set all_results" for r
  proof -
    from recs that have "result_record r" by blast
    then show ?thesis
      by (auto simp: result_record_def kem_record_def sig_record_def HEADER_def)
  qed
  moreover from assms(2) have "hd all_results \<in> set all_results" by simp
  ultimately show ?thesis unfolding HEADER_def by blast
qed

theorem report_has_fixed_columns_witness:
  "files (snd (main_on (stub [''Dilithium3''] [] []) [''Kyber768''] [''Dilithium3''] 1 init))
     OUTPUT_CSV_FILE
     = Some [[StrV ''Algorithm'', StrV ''Type'', StrV ''Public Key (bytes)'',
              StrV ''Secret Key (bytes)'', StrV ''Ciphertext (bytes)'', StrV ''Signature (bytes)'',
              StrV ''Keygen (ms)'', StrV ''Encaps/Sign (ms)'', StrV ''Decaps/Verify (ms)''],
             [StrV ''Dilithium3'', StrV ''Signature'', IntV 1952, IntV 4000, StrV ''N/A'',
              IntV 3293, FloatV 875, FloatV 1375, FloatV 1625]]"
proof -
  let ?lib = "stub [''Dilithium3''] [] []"
  let ?run = "run_benchmarks ?lib [''Kyber768''] [''Dilithium3''] 1 init"
  let ?acc = "[zip HEADER [StrV ''Dilithium3'', StrV ''Signature'', IntV 1952, IntV 4000,
                          StrV ''N/A'', IntV 3293, FloatV 875, FloatV 1375, FloatV 1625]]"
  have "fst ?run = Inr ?acc" by (simp add: run_defs HEADER_def)
  then have h1: "?run = (Inr ?acc, snd ?run)" by (simp add: prod_eq_iff)
  have h2: "?acc \<noteq> []" by simp
  from report_has_fixed_columns [OF h1 h2] show ?thesis by (simp add: HEADER_def)
qed

subsection \<open>Unavailable mechanisms and the empty run\<close>

lemma benchmark_kem_unavailable:
  assumes "fst (KeyEncapsulation lib a (world s)) = Inl e"
  shows "benchmark_kem lib a n s
           = (Inl e, (print (kem_line a) s)\<lparr>world := snd (KeyEncapsulation lib a (world s))\<rparr>)"
  using assms
  by (cases "KeyEncapsulation lib a (world s)")
     (simp add: benchmark_kem_def with_handle_def enter_def print_def)

lemma benchmark_sig_unavailable:
  assumes "fst (Signature lib a (world s)) = Inl e"
  shows "benchmark_sig lib a n s
           = (Inl e, (print (sig_line a) s)\<lparr>world := snd (Signature lib a (world s))\<rparr>)"
  using assms
  by (cases "Signature lib a (world s)")
     (simp add: benchmark_sig_def with_handle_def enter_def print_def)

lemma run_targets_all_skipped:
  assumes "\<And>a s. a \<in> set algs \<Longrightarrow> fst (bench a s) = Inl MechanismNotEnabledError"
  shows "fst (run_targets bench algs acc s) = Inr acc"
  using assms
proof (induction algs arbitrary: s)
  case Nil
  show ?case by simp
next
  case (Cons a algs)
  then have "fst (bench a s) = Inl MechanismNotEnabledError" by simp
  then obtain s1 where "bench a s = (Inl MechanismNotEnabledError, s1)"
    by (cases "bench a s") simp
  then show ?case using Cons by simp
qed

lemma run_benchmarks_all_unavailable:
  assumes "\<forall>a\<in>set kems. \<forall>w. fst (KeyEncapsulation lib a w) = Inl MechanismNotEnabledError"
    and "\<forall>a\<in>set sigs. \<forall>w. fst (Signature lib a w) = Inl MechanismNotEnabledError"
  shows "fst (run_benchmarks lib kems sigs n s) = Inr []"
proof -
  have k: "fst (run_kems lib n kems [] t) = Inr []" for t
    unfolding run_kems_def
    by (rule run_targets_all_skipped) (simp add: assms(1) benchmark_kem_unavailable)
  have g: "fst (run_sigs lib n sigs [] t) = Inr []" for t
    unfolding run_sigs_def
    by (rule run_targets_all_skipped) (simp add: assms(2) benchmark_sig_unavailable)
  obtain s1 where "run_kems lib n kems [] (print_banner s) = (Inr [], s1)"
    using k [of "print_banner s"] by (cases "run_kems lib n kems [] (print_banner s)") simp
  then show ?thesis
    by (simp add: run_benchmarks_def g)
qed

text \<open>
  Claim C8. If every configured target is unavailable (its constructor signals that the
  mechanism is not enabled, whatever the state of the library), the list of records is
  empty and \<^verbatim>\<open>main\<close> completes without an exception: it writes no file and creates no
  directory, and the last line it prints is the no-results message.
\<close>

theorem all_unavailable_completes_without_report:
  assumes "\<forall>a\<in>set kems. \<forall>w. fst (KeyEncapsulation lib a w) = Inl MechanismNotEnabledError"
    and "\<forall>a\<in>set sigs. \<forall>w. fst (Signature lib a w) = Inl MechanismNotEnabledError"
  shows "fst (run_benchmarks lib kems sigs n s) = Inr []
    \<and> fst (main_on lib kems sigs n s) = Inr ()
    \<and> files (snd (main_on lib kems sigs n s)) = files s
    \<and> dirs (snd (main_on lib kems sigs n s)) = dirs s
    \<and> last (stdout (snd (main_on lib kems sigs n s))) = Text ''No results to save. Exiting.''"
proof -
  have r: "fst (run_benchmarks lib kems sigs n s) = Inr []"
    using assms by (rule run_benchmarks_all_unavailable)
  then obtain s1 where run: "run_benchmarks lib kems sigs n s = (Inr [], s1)"
    by (cases "run_benchmarks lib kems sigs n s") simp
  then have m: "main_on lib kems sigs n s = (Inr (), print (Text ''No results to save. Exiting.'') s1)"
    by (simp add: main_on_def save_results_def)
  from run have "console_only s s1" by (rule run_benchmarks_console_only)
  then show ?thesis
    using r by (simp add: m console_only_def print_def)
qed

theorem all_unavailable_completes_without_report_witness:
  "fst (main (stub [] [] []) init) = Inr ()
   \<and> files (snd (main (stub [] [] []) init)) = Map.empty
   \<and> last (stdout (snd (main (stub [] [] []) init))) = Text ''No results to save. Exiting.''"
proof -
  have h1: "\<forall>a\<in>set KEM_ALGORITHMS. \<forall>w.
              fst (KeyEncapsulation (stub [] [] []) a w) = Inl MechanismNotEnabledError"
    by (simp add: stub_def)
  have h2: "\<forall>a\<in>set SIGNATURE_ALGORITHMS. \<forall>w.
              fst (Signature (stub [] [] []) a w) = Inl MechanismNotEnabledError"
    by (simp add: stub_def)
  from all_unavailable_completes_without_report [OF h1 h2, of NUM_ITERATIONS init]
  show ?thesis by (simp add: init_def main_def)
qed

text \<open>
  Claim C10. When the loops leave no record, \<^verbatim>\<open>main\<close> returns right after printing the
  no-results message: its final state is the state after the loops plus that one line,
  so no directory was created and no file written. The directory is created only on the
  other path: with at least one record the results directory and its parent exist
  afterwards, next to whatever directories existed before, and the CSV file exists.
\<close>

theorem empty_run_has_no_file_effects:
  "(run_benchmarks lib kems sigs n s = (Inr [], s1) \<longrightarrow>
       main_on lib kems sigs n s = (Inr (), print (Text ''No results to save. Exiting.'') s1)
     \<and> dirs (snd (main_on lib kems sigs n s)) = dirs s
     \<and> files (snd (main_on lib kems sigs n s)) = files s)
   \<and> (run_benchmarks lib kems sigs n s = (Inr rs, s1) \<and> rs \<noteq> [] \<longrightarrow>
       dirs (snd (main_on lib kems sigs n s)) = dirs s \<union> {''results'', ''results/tables''}
     \<and> files (snd (main_on lib kems sigs n s)) OUTPUT_CSV_FILE \<noteq> None)"
proof (intro conjI impI)
  assume run: "run_benchmarks lib kems sigs n s = (Inr [], s1)"
  then show m: "main_on lib kems sigs n s
                  = (Inr (), print (Text ''No results to save. Exiting.'') s1)"
    by (simp add: main_on_def save_results_def)
  from run have "console_only s s1" by (rule run_benchmarks_console_only)
  then show "dirs (snd (main_on lib kems sigs n s)) = dirs s"
    and "files (snd (main_on lib kems sigs n s)) = files s"
    by (simp_all add: m console_only_def print_def)
next
  assume h: "run_benchmarks lib kems sigs n s = (Inr rs, s1) \<and> rs \<noteq> []"
  then have run: "run_benchmarks lib kems sigs n s = (Inr rs, s1)" by simp
  then have recs: "\<forall>r\<in>set rs. result_record r" by (rule run_benchmarks_records)
  from run have c: "console_only s s1" by (rule run_benchmarks_console_only)
  from h have m: "main_on lib kems sigs n s = save_results rs s1" by (simp add: main_on_saves)
  from h have "rs \<noteq> []" by simp
  from save_results_records [OF this recs, of s1]
  obtain s' where s': "save_results rs s1 = (Inr (), s')"
    "files s' = (files s1)(OUTPUT_CSV_FILE \<mapsto> map StrV HEADER # map (map snd) rs)"
    "dirs s' = dirs s1 \<union> set (path_prefixes RESULTS_DIR)"
    by blast
  from s' c show "dirs (snd (main_on lib kems sigs n s)) = dirs s \<union> {''results'', ''results/tables''}"
    by (simp add: m results_dir_prefixes console_only_def)
  from s' show "files (snd (main_on lib kems sigs n s)) OUTPUT_CSV_FILE \<noteq> None"
    by (simp add: m)
qed

theorem empty_run_has_no_file_effects_witness:
  "dirs (snd (main_on (stub [] [] []) [''Kyber768''] [''Dilithium3''] 1 init)) = {}
   \<and> files (snd (main_on (stub [] [] []) [''Kyber768''] [''Dilithium3''] 1 init)) = Map.empty
   \<and> dirs (snd (main_on (stub [''Kyber768''] [] []) [''Kyber768''] [''Dilithium3''] 1 init))
       = {''results'', ''results/tables''}"
proof -
  let ?run = "run_benchmarks (stub [] [] []) [''Kyber768''] [''Dilithium3''] 1 init"
  have "fst ?run = Inr []" by (simp add: run_defs)
  then have h1: "?run = (Inr [], snd ?run)" by (simp add: prod_eq_iff)
  let ?run' = "run_benchmarks (stub [''Kyber768''] [] []) [''Kyber768''] [''Dilithium3''] 1 init"
  let ?acc = "[zip HEADER [StrV ''Kyber768'', StrV ''KEM'', IntV 1184, IntV 2400, IntV 1088,
                          StrV ''N/A'', FloatV 250, FloatV 375, FloatV 625]]"
  have "fst ?run' = Inr ?acc" by (simp add: run_defs HEADER_def)
  then have h2: "?run' = (Inr ?acc, snd ?run')" by (simp add: prod_eq_iff)
  from empty_run_has_no_file_effects
         [where lib = "stub [] [] []" and kems = "[''Kyber768'']" and sigs = "[''Dilithium3'']"
            and n = 1 and s = init and ?s1.0 = "snd ?run" and rs = "[]"] h1
  have "dirs (snd (main_on (stub [] [] []) [''Kyber768''] [''Dilithium3''] 1 init)) = dirs init
      \<and> files (snd (main_on (stub [] [] []) [''Kyber768''] [''Dilithium3''] 1 init)) = files init"
    by blast
  moreover
  from empty_run_has_no_file_effects
         [where lib = "stub [''Kyber768''] [] []" and kems = "[''Kyber768'']"
            and sigs = "[''Dilithium3'']" and n = 1 and s = init and ?s1.0 = "snd ?run'"
            and rs = ?acc] h2
  have "dirs (snd (main_on (stub [''Kyber768''] [] []) [''Kyber768''] [''Dilithium3''] 1 init))
          = dirs init \<union> {''results'', ''results/tables''}"
    by blast
  ultimately show ?thesis by (simp add: init_def)
qed

subsection \<open>Handles\<close>

lemma main_on_handles: "handles (snd (main_on lib kems sigs n s)) = handles s"
proof -
  obtain r s1 where run: "run_benchmarks lib kems sigs n s = (r, s1)"
    by (cases "run_benchmarks lib kems sigs n s")
  then have h1: "handles s1 = handles s"
    using run_benchmarks_console_only [OF run] by (simp add: console_only_def)
  show ?thesis
  proof (cases r)
    case (Inl e)
    with run h1 show ?thesis by (simp add: main_on_def)
  next
    case (Inr rs)
    with run have run': "run_benchmarks lib kems sigs n s = (Inr rs, s1)" by simp
    then have recs: "\<forall>r\<in>set rs. result_record r" by (rule run_benchmarks_records)
    show ?thesis
    proof (cases "rs = []")
      case True
      with run' h1 show ?thesis by (simp add: main_on_def save_results_def print_def)
    next
      case False
      from save_results_records [OF False recs, of s1] h1 show ?thesis
        by (auto simp: main_on_saves [OF run'])
    qed
  qed
qed

text \<open>
  Claim C9. Whatever a benchmark function returns (a record, the failed assertion, any
  exception of the library or of the averaging), the handles open after it are the
  handles open before it, and so for the whole of \<^verbatim>\<open>main\<close>. When the constructor has
  returned a handle, the function returns what the body returned, and the state it
  leaves is the state the body left with two changes: the library has released that
  handle (its \<^verbatim>\<open>free\<close> was applied to the world the body left, and nothing else was done
  to the world after the body), and the handle is no longer open. So the release is the
  last thing the function does on every path, and it happens exactly once. When the
  constructor raises, nothing was acquired and nothing is released: the function ends in
  the state the constructor left.
\<close>

theorem handle_released_on_every_path:
  "handles (snd (benchmark_kem lib a n s)) = handles s
   \<and> handles (snd (benchmark_sig lib a n s)) = handles s
   \<and> handles (snd (main_on lib kems sigs n s)) = handles s
   \<and> (\<forall>kem s1. enter (KeyEncapsulation lib) a (print (kem_line a) s) = (Inr kem, s1) \<longrightarrow>
        handles s1 = kem # handles s
      \<and> handles (snd (kem_body lib a n kem s1)) = kem # handles s
      \<and> fst (benchmark_kem lib a n s) = fst (kem_body lib a n kem s1)
      \<and> world (snd (benchmark_kem lib a n s))
          = kem_free lib kem (world (snd (kem_body lib a n kem s1)))
      \<and> snd (benchmark_kem lib a n s)
          = (snd (kem_body lib a n kem s1))
              \<lparr>world := kem_free lib kem (world (snd (kem_body lib a n kem s1))),
               handles := handles s\<rparr>)
   \<and> (\<forall>sg s1. enter (Signature lib) a (print (sig_line a) s) = (Inr sg, s1) \<longrightarrow>
        handles s1 = sg # handles s
      \<and> handles (snd (sig_body lib a n sg s1)) = sg # handles s
      \<and> fst (benchmark_sig lib a n s) = fst (sig_body lib a n sg s1)
      \<and> world (snd (benchmark_sig lib a n s))
          = sig_free lib sg (world (snd (sig_body lib a n sg s1)))
      \<and> snd (benchmark_sig lib a n s)
          = (snd (sig_body lib a n sg s1))
              \<lparr>world := sig_free lib sg (world (snd (sig_body lib a n sg s1))),
               handles := handles s\<rparr>)
   \<and> (\<forall>e s1. enter (KeyEncapsulation lib) a (print (kem_line a) s) = (Inl e, s1) \<longrightarrow>
        benchmark_kem lib a n s = (Inl e, s1) \<and> handles s1 = handles s)
   \<and> (\<forall>e s1. enter (Signature lib) a (print (sig_line a) s) = (Inl e, s1) \<longrightarrow>
        benchmark_sig lib a n s = (Inl e, s1) \<and> handles s1 = handles s)"
proof (intro conjI allI impI)
  obtain r s' where b: "benchmark_kem lib a n s = (r, s')"
    by (cases "benchmark_kem lib a n s")
  from benchmark_kem_console_only [OF b] b
  show "handles (snd (benchmark_kem lib a n s)) = handles s"
    by (simp add: console_only_def)
next
  obtain r s' where b: "benchmark_sig lib a n s = (r, s')"
    by (cases "benchmark_sig lib a n s")
  from benchmark_sig_console_only [OF b] b
  show "handles (snd (benchmark_sig lib a n s)) = handles s"
    by (simp add: console_only_def)
next
  show "handles (snd (main_on lib kems sigs n s)) = handles s"
    by (rule main_on_handles)
next
  fix kem s1
  assume e: "enter (KeyEncapsulation lib) a (print (kem_line a) s) = (Inr kem, s1)"
  then show h1: "handles s1 = kem # handles s"
    by (elim enter_cases) (simp_all add: print_def)
  obtain r s2 where body: "kem_body lib a n kem s1 = (r, s2)"
    by (cases "kem_body lib a n kem s1")
  from kem_body_console_only [OF body] h1 have h2: "handles s2 = kem # handles s"
    by (simp add: console_only_def)
  then show "handles (snd (kem_body lib a n kem s1)) = kem # handles s"
    by (simp add: body)
  note w = with_handle_acquired [where body = "kem_body lib a n" and free = "kem_free lib",
             OF e body]
  from w show "fst (benchmark_kem lib a n s) = fst (kem_body lib a n kem s1)"
    by (simp add: benchmark_kem_def body)
  from w show "world (snd (benchmark_kem lib a n s))
                 = kem_free lib kem (world (snd (kem_body lib a n kem s1)))"
    by (simp add: benchmark_kem_def body leave_def)
  from w h2 show "snd (benchmark_kem lib a n s)
          = (snd (kem_body lib a n kem s1))
              \<lparr>world := kem_free lib kem (world (snd (kem_body lib a n kem s1))),
               handles := handles s\<rparr>"
    by (simp add: benchmark_kem_def body leave_def)
next
  fix sg s1
  assume e: "enter (Signature lib) a (print (sig_line a) s) = (Inr sg, s1)"
  then show h1: "handles s1 = sg # handles s"
    by (elim enter_cases) (simp_all add: print_def)
  obtain r s2 where body: "sig_body lib a n sg s1 = (r, s2)"
    by (cases "sig_body lib a n sg s1")
  from sig_body_console_only [OF body] h1 have h2: "handles s2 = sg # handles s"
    by (simp add: console_only_def)
  then show "handles (snd (sig_body lib a n sg s1)) = sg # handles s"
    by (simp add: body)
  note w = with_handle_acquired [where body = "sig_body lib a n" and free = "sig_free lib",
             OF e body]
  from w show "fst (benchmark_sig lib a n s) = fst (sig_body lib a n sg s1)"
    by (simp add: benchmark_sig_def body)
  from w show "world (snd (benchmark_sig lib a n s))
                 = sig_free lib sg (world (snd (sig_body lib a n sg s1)))"
    by (simp add: benchmark_sig_def body leave_def)
  from w h2 show "snd (benchmark_sig lib a n s)
          = (snd (sig_body lib a n sg s1))
              \<lparr>world := sig_free lib sg (world (snd (sig_body lib a n sg s1))),
               handles := handles s\<rparr>"
    by (simp add: benchmark_sig_def body leave_def)
next
  fix e s1
  assume e: "enter (KeyEncapsulation lib) a (print (kem_line a) s) = (Inl e, s1)"
  then show "benchmark_kem lib a n s = (Inl e, s1)"
    unfolding benchmark_kem_def by (rule with_handle_unavailable)
  from e show "handles s1 = handles s"
    by (elim enter_cases) (simp_all add: print_def)
next
  fix e s1
  assume e: "enter (Signature lib) a (print (sig_line a) s) = (Inl e, s1)"
  then show "benchmark_sig lib a n s = (Inl e, s1)"
    unfolding benchmark_sig_def by (rule with_handle_unavailable)
  from e show "handles s1 = handles s"
    by (elim enter_cases) (simp_all add: print_def)
qed

theorem handle_released_on_every_path_witness:
  "fst (benchmark_kem (stub [''Kyber768''] [''Kyber768''] []) ''Kyber768'' 1 init)
     = Inl AssertionError
   \<and> handles (snd (benchmark_kem (stub [''Kyber768''] [''Kyber768''] []) ''Kyber768'' 1 init)) = []
   \<and> world (snd (kem_body (stub [''Kyber768''] [''Kyber768''] []) ''Kyber768'' 1 ''Kyber768''
        ((print (kem_line ''Kyber768'') init)\<lparr>handles := [''Kyber768'']\<rparr>))) = 10
   \<and> world (snd (benchmark_kem (stub [''Kyber768''] [''Kyber768''] []) ''Kyber768'' 1 init)) = 110
   \<and> handles (snd (kem_body (stub [''Kyber768''] [''Kyber768''] []) ''Kyber768'' 1 ''Kyber768''
        ((print (kem_line ''Kyber768'') init)\<lparr>handles := [''Kyber768'']\<rparr>))) = [''Kyber768'']
   \<and> fst (benchmark_sig (stub [''Falcon-512''] [] [''Falcon-512'']) ''Falcon-512'' 1 init)
     = Inl (OtherError ''RuntimeError'')
   \<and> handles (snd (benchmark_sig (stub [''Falcon-512''] [] [''Falcon-512'']) ''Falcon-512'' 1 init))
     = []
   \<and> world (snd (benchmark_sig (stub [''Falcon-512''] [] [''Falcon-512'']) ''Falcon-512'' 1 init))
     = 1007
   \<and> benchmark_kem (stub [] [] []) ''Kyber768'' 1 init
     = (Inl MechanismNotEnabledError, print (kem_line ''Kyber768'') init)"
proof -
  let ?lib = "stub [''Kyber768''] [''Kyber768''] []"
  let ?lib' = "stub [''Falcon-512''] [] [''Falcon-512'']"
  let ?s1 = "(print (kem_line ''Kyber768'') init)\<lparr>handles := [''Kyber768'']\<rparr>"
  let ?t1 = "(print (sig_line ''Falcon-512'') init)\<lparr>handles := [''Falcon-512'']\<rparr>"
  have e: "enter (KeyEncapsulation ?lib) ''Kyber768'' (print (kem_line ''Kyber768'') init)
             = (Inr ''Kyber768'', ?s1)"
    by (simp add: enter_def stub_def print_def init_def)
  have e': "enter (Signature ?lib') ''Falcon-512'' (print (sig_line ''Falcon-512'') init)
             = (Inr ''Falcon-512'', ?t1)"
    by (simp add: enter_def stub_def print_def init_def)
  have e0: "enter (KeyEncapsulation (stub [] [] [])) ''Kyber768'' (print (kem_line ''Kyber768'') init)
             = (Inl MechanismNotEnabledError, print (kem_line ''Kyber768'') init)"
    by (simp add: enter_def stub_def print_def init_def)
  have k: "fst (kem_body ?lib ''Kyber768'' 1 ''Kyber768'' ?s1) = Inl AssertionError"
    by (simp add: run_defs)
  have kw: "world (snd (kem_body ?lib ''Kyber768'' 1 ''Kyber768'' ?s1)) = 10"
    by (simp add: run_defs)
  have g: "fst (sig_body ?lib' ''Falcon-512'' 1 ''Falcon-512'' ?t1) = Inl (OtherError ''RuntimeError'')"
    by (simp add: run_defs)
  have gw: "world (snd (sig_body ?lib' ''Falcon-512'' 1 ''Falcon-512'' ?t1)) = 7"
    by (simp add: run_defs)
  have f: "kem_free ?lib ''Kyber768'' 10 = 110" "sig_free ?lib' ''Falcon-512'' 7 = 1007"
    by (simp_all add: stub_def)
  note r = handle_released_on_every_path
             [where lib = ?lib and a = "''Kyber768''" and n = 1 and s = init]
  note r' = handle_released_on_every_path
             [where lib = ?lib' and a = "''Falcon-512''" and n = 1 and s = init]
  note r0 = handle_released_on_every_path
             [where lib = "stub [] [] []" and a = "''Kyber768''" and n = 1 and s = init]
  from r e have "fst (benchmark_kem ?lib ''Kyber768'' 1 init)
                   = fst (kem_body ?lib ''Kyber768'' 1 ''Kyber768'' ?s1)"
    and "world (snd (benchmark_kem ?lib ''Kyber768'' 1 init))
           = kem_free ?lib ''Kyber768'' (world (snd (kem_body ?lib ''Kyber768'' 1 ''Kyber768'' ?s1)))"
    and "handles (snd (kem_body ?lib ''Kyber768'' 1 ''Kyber768'' ?s1)) = ''Kyber768'' # handles init"
    by blast+
  then have c1: "fst (benchmark_kem ?lib ''Kyber768'' 1 init) = Inl AssertionError"
    and c2: "world (snd (benchmark_kem ?lib ''Kyber768'' 1 init)) = 110"
    and c3: "handles (snd (kem_body ?lib ''Kyber768'' 1 ''Kyber768'' ?s1)) = [''Kyber768'']"
    by (simp_all only: k kw f) (simp add: init_def)
  from r have c4: "handles (snd (benchmark_kem ?lib ''Kyber768'' 1 init)) = handles init"
    by blast
  from r' e' have "fst (benchmark_sig ?lib' ''Falcon-512'' 1 init)
                   = fst (sig_body ?lib' ''Falcon-512'' 1 ''Falcon-512'' ?t1)"
    and "world (snd (benchmark_sig ?lib' ''Falcon-512'' 1 init))
           = sig_free ?lib' ''Falcon-512'' (world (snd (sig_body ?lib' ''Falcon-512'' 1 ''Falcon-512'' ?t1)))"
    by blast+
  then have c5: "fst (benchmark_sig ?lib' ''Falcon-512'' 1 init) = Inl (OtherError ''RuntimeError'')"
    and c6: "world (snd (benchmark_sig ?lib' ''Falcon-512'' 1 init)) = 1007"
    by (simp_all only: g gw f)
  from r' have c7: "handles (snd (benchmark_sig ?lib' ''Falcon-512'' 1 init)) = handles init"
    by blast
  from r0 e0 have c8: "benchmark_kem (stub [] [] []) ''Kyber768'' 1 init
     = (Inl MechanismNotEnabledError, print (kem_line ''Kyber768'') init)"
    by blast
  from c1 c2 c3 c4 c5 c6 c7 c8 kw show ?thesis by (simp add: init_def)
qed

subsection \<open>Available and unavailable targets\<close>

lemma for_range_never:
  assumes "\<And>a s. fst (body a s) \<noteq> Inl e"
  shows "fst (for_range n body a s) \<noteq> Inl e"
proof (induction n arbitrary: a s)
  case 0
  show ?case by simp
next
  case (Suc n)
  obtain r s1 where b: "body a s = (r, s1)" by (cases "body a s")
  with assms [of a s] have "r \<noteq> Inl e" by simp
  with b Suc show ?case by (cases r) simp_all
qed

lemma kem_steps_never_skip:
  assumes "only_constructors_signal lib"
  shows "fst (kem_steps lib kem ts s) \<noteq> Inl MechanismNotEnabledError"
proof -
  from assms have
    a: "\<And>w w'. kem_generate_keypair lib kem w \<noteq> (Inl MechanismNotEnabledError, w')" and
    b: "\<And>w w'. kem_export_secret_key lib kem w \<noteq> (Inl MechanismNotEnabledError, w')" and
    c: "\<And>pk w w'. encap_secret lib kem pk w \<noteq> (Inl MechanismNotEnabledError, w')" and
    d: "\<And>sk ct w w'. decap_secret lib kem sk ct w \<noteq> (Inl MechanismNotEnabledError, w')"
    unfolding only_constructors_signal_def by (metis fst_conv)+
  show ?thesis
    by (cases ts)
       (auto simp: kem_steps_def andthen_def now_def call_def ok_def Let_def a b c d
             split: prod.splits sum.splits)
qed

lemma sig_steps_never_skip:
  assumes "only_constructors_signal lib"
  shows "fst (sig_steps lib sg msg ts s) \<noteq> Inl MechanismNotEnabledError"
proof -
  from assms have
    a: "\<And>w w'. sig_generate_keypair lib sg w \<noteq> (Inl MechanismNotEnabledError, w')" and
    b: "\<And>w w'. sig_export_secret_key lib sg w \<noteq> (Inl MechanismNotEnabledError, w')" and
    c: "\<And>m sk w w'. sign lib sg m sk w \<noteq> (Inl MechanismNotEnabledError, w')" and
    d: "\<And>m x pk w w'. verify lib sg m x pk w \<noteq> (Inl MechanismNotEnabledError, w')"
    unfolding only_constructors_signal_def by (metis fst_conv)+
  show ?thesis
    by (cases ts)
       (auto simp: sig_steps_def andthen_def now_def call_def ok_def Let_def a b c d
             split: prod.splits sum.splits)
qed

lemma kem_iteration_never_skip:
  assumes "only_constructors_signal lib"
  shows "fst (kem_iteration lib kem ts s) \<noteq> Inl MechanismNotEnabledError"
proof -
  obtain r s' where it: "kem_iteration lib kem ts s = (r, s')"
    by (cases "kem_iteration lib kem ts s")
  from it show ?thesis
  proof (cases rule: kem_iteration_cases)
    case (steps_fail e)
    with kem_steps_never_skip [OF assms, of kem ts s] it show ?thesis by simp
  next
    case (agree l ts')
    with it show ?thesis by simp
  next
    case (differ l ts')
    with it show ?thesis by simp
  qed
qed

lemma sig_iteration_never_skip:
  assumes "only_constructors_signal lib"
  shows "fst (sig_iteration lib sg msg ts s) \<noteq> Inl MechanismNotEnabledError"
proof -
  obtain r s' where it: "sig_iteration lib sg msg ts s = (r, s')"
    by (cases "sig_iteration lib sg msg ts s")
  from it show ?thesis
  proof (cases rule: sig_iteration_cases)
    case (steps_fail e)
    with sig_steps_never_skip [OF assms, of sg msg ts s] it show ?thesis by simp
  next
    case (valid l ts')
    with it show ?thesis by simp
  next
    case (invalid l ts')
    with it show ?thesis by simp
  qed
qed

lemma kem_body_never_skip:
  assumes "only_constructors_signal lib"
  shows "fst (kem_body lib a n kem s) \<noteq> Inl MechanismNotEnabledError"
proof -
  obtain r s' where body: "kem_body lib a n kem s = (r, s')"
    by (cases "kem_body lib a n kem s")
  have loop: "fst (kem_loop lib kem k ts t) \<noteq> Inl MechanismNotEnabledError" for k ts t
    unfolding kem_loop_def
    by (rule for_range_never) (rule kem_iteration_never_skip [OF assms])
  from body show ?thesis
  proof (cases rule: kem_body_cases)
    case (loop_fails e)
    with loop [of "nat n" "([], [], [])" "print (running_line n) s"] body show ?thesis by simp
  next
    case (loop_done ts)
    with body show ?thesis by (simp add: kem_results_not_skip)
  qed
qed

lemma sig_body_never_skip:
  assumes "only_constructors_signal lib"
  shows "fst (sig_body lib a n sg s) \<noteq> Inl MechanismNotEnabledError"
proof -
  obtain r s' where body: "sig_body lib a n sg s = (r, s')"
    by (cases "sig_body lib a n sg s")
  have loop: "fst (sig_loop lib sg message k ts t) \<noteq> Inl MechanismNotEnabledError" for k ts t
    unfolding sig_loop_def
    by (rule for_range_never) (rule sig_iteration_never_skip [OF assms])
  from body show ?thesis
  proof (cases rule: sig_body_cases)
    case (loop_fails e)
    with loop [of "nat n" "([], [], [])" "print (running_line n) s"] body show ?thesis by simp
  next
    case (loop_done ts)
    with body show ?thesis by (simp add: sig_results_not_skip)
  qed
qed

text \<open>With such a library a target is skipped exactly when its constructor signals.\<close>

lemma benchmark_kem_skip_iff:
  assumes "only_constructors_signal lib"
  shows "(fst (benchmark_kem lib a n s) = Inl MechanismNotEnabledError)
       = (fst (KeyEncapsulation lib a (world s)) = Inl MechanismNotEnabledError)"
proof
  assume "fst (KeyEncapsulation lib a (world s)) = Inl MechanismNotEnabledError"
  then show "fst (benchmark_kem lib a n s) = Inl MechanismNotEnabledError"
    by (simp add: benchmark_kem_unavailable)
next
  assume skip: "fst (benchmark_kem lib a n s) = Inl MechanismNotEnabledError"
  obtain r s' where b: "benchmark_kem lib a n s = (r, s')" by (cases "benchmark_kem lib a n s")
  from b [unfolded benchmark_kem_def]
  show "fst (KeyEncapsulation lib a (world s)) = Inl MechanismNotEnabledError"
  proof (cases rule: with_handle_cases)
    case (unavailable e)
    with skip b show ?thesis
      by (elim enter_cases) (simp_all add: print_def)
  next
    case (acquired h s1 s2)
    with kem_body_never_skip [OF assms, of a n h s1] skip b show ?thesis by simp
  qed
qed

lemma benchmark_sig_skip_iff:
  assumes "only_constructors_signal lib"
  shows "(fst (benchmark_sig lib a n s) = Inl MechanismNotEnabledError)
       = (fst (Signature lib a (world s)) = Inl MechanismNotEnabledError)"
proof
  assume "fst (Signature lib a (world s)) = Inl MechanismNotEnabledError"
  then show "fst (benchmark_sig lib a n s) = Inl MechanismNotEnabledError"
    by (simp add: benchmark_sig_unavailable)
next
  assume skip: "fst (benchmark_sig lib a n s) = Inl MechanismNotEnabledError"
  obtain r s' where b: "benchmark_sig lib a n s = (r, s')" by (cases "benchmark_sig lib a n s")
  from b [unfolded benchmark_sig_def]
  show "fst (Signature lib a (world s)) = Inl MechanismNotEnabledError"
  proof (cases rule: with_handle_cases)
    case (unavailable e)
    with skip b show ?thesis
      by (elim enter_cases) (simp_all add: print_def)
  next
    case (acquired h s1 s2)
    with sig_body_never_skip [OF assms, of a n h s1] skip b show ?thesis by simp
  qed
qed

lemma console_only_mono:
  "console_only s s' \<Longrightarrow> l \<in> set (stdout s) \<Longrightarrow> l \<in> set (stdout s')"
  by (auto simp: console_only_def dest: set_mono_prefix)

lemma run_targets_available:
  assumes skip: "\<And>a s. a \<in> set algs \<Longrightarrow>
                   (fst (bench a s) = Inl MechanismNotEnabledError) = (\<not> avail a)"
    and rec: "\<And>a s r s'. bench a s = (Inr r, s') \<Longrightarrow> P a r"
    and grow: "\<And>a s r s'. bench a s = (r, s') \<Longrightarrow> console_only s s'"
    and run: "run_targets bench algs acc s = (Inr res, s')"
  shows "\<exists>new. res = acc @ new \<and> list_all2 P (filter avail algs) new
           \<and> (\<forall>a\<in>set algs. \<not> avail a \<longrightarrow> skip_message a \<in> set (stdout s'))"
  using skip run
proof (induction algs arbitrary: acc s)
  case Nil
  then show ?case by simp
next
  case (Cons a algs)
  obtain r1 s1 where b: "bench a s = (r1, s1)" by (cases "bench a s")
  have sk: "(r1 = Inl MechanismNotEnabledError) = (\<not> avail a)"
    using Cons.prems(1) [of a s] b by simp
  have IHskip: "\<And>a s. a \<in> set algs \<Longrightarrow>
                  (fst (bench a s) = Inl MechanismNotEnabledError) = (\<not> avail a)"
    using Cons.prems(1) by simp
  show ?case
  proof (cases r1)
    case (Inr rec1)
    with sk have av: "avail a" by simp
    from Inr b rec have p: "P a rec1" by blast
    from Cons.prems(2) b Inr
    have "run_targets bench algs (acc @ [rec1]) s1 = (Inr res, s')" by simp
    from Cons.IH [OF IHskip this] obtain new where
      new: "res = (acc @ [rec1]) @ new" "list_all2 P (filter avail algs) new"
        "\<forall>a\<in>set algs. \<not> avail a \<longrightarrow> skip_message a \<in> set (stdout s')"
      by blast
    from new av p have "res = acc @ (rec1 # new)"
      "list_all2 P (filter avail (a # algs)) (rec1 # new)"
      "\<forall>x\<in>set (a # algs). \<not> avail x \<longrightarrow> skip_message x \<in> set (stdout s')"
      by auto
    then show ?thesis by blast
  next
    case (Inl e)
    show ?thesis
    proof (cases "e = MechanismNotEnabledError")
      case True
      with sk Inl have nav: "\<not> avail a" by simp
      let ?s2 = "print (skip_message a) s1"
      from Cons.prems(2) b Inl True
      have rest: "run_targets bench algs acc ?s2 = (Inr res, s')" by simp
      from Cons.IH [OF IHskip this] obtain new where
        new: "res = acc @ new" "list_all2 P (filter avail algs) new"
          "\<forall>a\<in>set algs. \<not> avail a \<longrightarrow> skip_message a \<in> set (stdout s')"
        by blast
      have "console_only ?s2 s'"
        using grow rest by (rule run_targets_console_only)
      moreover have "skip_message a \<in> set (stdout ?s2)" by (simp add: print_def)
      ultimately have "skip_message a \<in> set (stdout s')" by (rule console_only_mono)
      with new nav have "res = acc @ new" "list_all2 P (filter avail (a # algs)) new"
        "\<forall>x\<in>set (a # algs). \<not> avail x \<longrightarrow> skip_message x \<in> set (stdout s')"
        by auto
      then show ?thesis by blast
    next
      case False
      with Cons.prems(2) b Inl show ?thesis by simp
    qed
  qed
qed

lemma run_benchmarks_available:
  assumes lib: "only_constructors_signal lib"
    and k: "\<forall>a\<in>set kems. \<forall>w. (fst (KeyEncapsulation lib a w) = Inl MechanismNotEnabledError)
                                = (\<not> availK a)"
    and g: "\<forall>a\<in>set sigs. \<forall>w. (fst (Signature lib a w) = Inl MechanismNotEnabledError)
                                = (\<not> availS a)"
    and run: "run_benchmarks lib kems sigs n s = (Inr res, s')"
  shows "\<exists>rk rs. res = rk @ rs
           \<and> list_all2 kem_record (filter availK kems) rk
           \<and> list_all2 sig_record (filter availS sigs) rs
           \<and> (\<forall>a\<in>set kems. \<not> availK a \<longrightarrow> skip_message a \<in> set (stdout s'))
           \<and> (\<forall>a\<in>set sigs. \<not> availS a \<longrightarrow> skip_message a \<in> set (stdout s'))"
  using run
proof (cases rule: run_benchmarks_cases)
  case (kem_fails e)
  then show ?thesis by simp
next
  case (kems_done acc1 s1)
  have "\<exists>new. acc1 = [] @ new \<and> list_all2 kem_record (filter availK kems) new
          \<and> (\<forall>a\<in>set kems. \<not> availK a \<longrightarrow> skip_message a \<in> set (stdout s1))"
  proof (rule run_targets_available [where bench = "\<lambda>alg. benchmark_kem lib alg n"])
    show "(fst (benchmark_kem lib a n t) = Inl MechanismNotEnabledError) = (\<not> availK a)"
      if "a \<in> set kems" for a t
      using that k by (simp add: benchmark_kem_skip_iff [OF lib])
    show "kem_record a r" if "benchmark_kem lib a n t = (Inr r, t')" for a t r t'
      using that by (rule benchmark_kem_record)
    show "console_only t t'" if "benchmark_kem lib a n t = (r, t')" for a t r t'
      using that by (rule benchmark_kem_console_only)
    show "run_targets (\<lambda>alg. benchmark_kem lib alg n) kems [] (print_banner s) = (Inr acc1, s1)"
      using kems_done(1) by (simp add: run_kems_def)
  qed
  then have rk: "list_all2 kem_record (filter availK kems) acc1"
    and mk: "\<forall>a\<in>set kems. \<not> availK a \<longrightarrow> skip_message a \<in> set (stdout s1)"
    by simp_all
  have "\<exists>new. res = acc1 @ new \<and> list_all2 sig_record (filter availS sigs) new
          \<and> (\<forall>a\<in>set sigs. \<not> availS a \<longrightarrow> skip_message a \<in> set (stdout s'))"
  proof (rule run_targets_available [where bench = "\<lambda>alg. benchmark_sig lib alg n"])
    show "(fst (benchmark_sig lib a n t) = Inl MechanismNotEnabledError) = (\<not> availS a)"
      if "a \<in> set sigs" for a t
      using that g by (simp add: benchmark_sig_skip_iff [OF lib])
    show "sig_record a r" if "benchmark_sig lib a n t = (Inr r, t')" for a t r t'
      using that by (rule benchmark_sig_record)
    show "console_only t t'" if "benchmark_sig lib a n t = (r, t')" for a t r t'
      using that by (rule benchmark_sig_console_only)
    show "run_targets (\<lambda>alg. benchmark_sig lib alg n) sigs acc1 s1 = (Inr res, s')"
      using kems_done(2) by (simp add: run_sigs_def)
  qed
  then obtain rs where rs: "res = acc1 @ rs" "list_all2 sig_record (filter availS sigs) rs"
    and ms: "\<forall>a\<in>set sigs. \<not> availS a \<longrightarrow> skip_message a \<in> set (stdout s')"
    by blast
  from kems_done(2) have "console_only s1 s'" by (rule run_sigs_console_only)
  with mk have "\<forall>a\<in>set kems. \<not> availK a \<longrightarrow> skip_message a \<in> set (stdout s')"
    by (blast intro: console_only_mono)
  with rk rs ms show ?thesis by blast
qed

lemma main_on_completes_cases:
  assumes "main_on lib kems sigs n s = (Inr u, s')"
  obtains (empty) s1 where "run_benchmarks lib kems sigs n s = (Inr [], s1)"
      and "s' = print (Text ''No results to save. Exiting.'') s1"
    | (saved) rs s1 ls mid where "run_benchmarks lib kems sigs n s = (Inr rs, s1)" and "rs \<noteq> []"
      and "map Inr ls = map summary_line rs" and "stdout s' = stdout s1 @ mid @ ls"
      and "files s' = (files s)(OUTPUT_CSV_FILE \<mapsto> map StrV HEADER # map (map snd) rs)"
  using assms unfolding main_on_def
proof (cases rule: andthen_cases)
  case (fails e)
  then show ?thesis by simp
next
  case (goes rs s1)
  from goes(1) have recs: "\<forall>r\<in>set rs. result_record r" by (rule run_benchmarks_records)
  from goes(1) have c: "console_only s s1" by (rule run_benchmarks_console_only)
  show ?thesis
  proof (cases "rs = []")
    case True
    with goes have "s' = print (Text ''No results to save. Exiting.'') s1"
      by (simp add: save_results_def)
    with goes(1) True show ?thesis by (auto intro: empty)
  next
    case False
    from save_results_records [OF False recs, of s1] goes(2) c
    obtain ls mid where "map Inr ls = map summary_line rs" "stdout s' = stdout s1 @ mid @ ls"
      "files s' = (files s)(OUTPUT_CSV_FILE \<mapsto> map StrV HEADER # map (map snd) rs)"
      by (auto simp: console_only_def)
    with goes(1) False show ?thesis by (rule saved)
  qed
qed

lemmas report_defs =
  save_results_def makedirs_def open_w_def writeheader_def append_row_def dict_to_list_def
  summary_line_def getitem_def fixed3_def HEADER_def skip_message_def

lemma skipped_and_counted:
  fixes lib :: "('w, 'h) oqs"
  assumes "only_constructors_signal lib"
    and "\<forall>a\<in>set kems. \<forall>w. (fst (KeyEncapsulation lib a w) = Inl MechanismNotEnabledError)
                             = (\<not> availK a)"
    and "\<forall>a\<in>set sigs. \<forall>w. (fst (Signature lib a w) = Inl MechanismNotEnabledError)
                             = (\<not> availS a)"
  shows "(\<forall>e s'. main_on lib kems sigs n s = (Inl e, s') \<longrightarrow> e \<noteq> MechanismNotEnabledError)
    \<and> (\<forall>a rest acc t. a \<in> set kems \<and> \<not> availK a \<longrightarrow>
          run_kems lib n (a # rest) acc t
            = run_kems lib n rest acc
                (print (skip_message a)
                   ((print (kem_line a) t)\<lparr>world := snd (KeyEncapsulation lib a (world t))\<rparr>)))
    \<and> (\<forall>a rest acc t. a \<in> set sigs \<and> \<not> availS a \<longrightarrow>
          run_sigs lib n (a # rest) acc t
            = run_sigs lib n rest acc
                (print (skip_message a)
                   ((print (sig_line a) t)\<lparr>world := snd (Signature lib a (world t))\<rparr>)))
    \<and> (\<forall>s'. main_on lib kems sigs n s = (Inr (), s') \<longrightarrow>
          (\<forall>a\<in>set kems. \<not> availK a \<longrightarrow> skip_message a \<in> set (stdout s'))
        \<and> (\<forall>a\<in>set sigs. \<not> availS a \<longrightarrow> skip_message a \<in> set (stdout s'))
        \<and> (if filter availK kems = [] \<and> filter availS sigs = [] then files s' = files s
           else \<exists>rows. files s' OUTPUT_CSV_FILE = Some (map StrV HEADER # rows)
                  \<and> length rows = length (filter availK kems) + length (filter availS sigs)))"
proof (intro conjI allI impI)
  fix e s'
  assume "main_on lib kems sigs n s = (Inl e, s')"
  then have "run_benchmarks lib kems sigs n s = (Inl e, s')" by (rule main_on_fails)
  then show "e \<noteq> MechanismNotEnabledError" by (rule run_benchmarks_never_skip_error)
next
  fix a rest acc and t :: "('w, 'h) state"
  assume "a \<in> set kems \<and> \<not> availK a"
  with assms(2) have "fst (KeyEncapsulation lib a (world t)) = Inl MechanismNotEnabledError"
    by simp
  from benchmark_kem_unavailable [OF this, of n]
  show "run_kems lib n (a # rest) acc t
          = run_kems lib n rest acc
              (print (skip_message a)
                 ((print (kem_line a) t)\<lparr>world := snd (KeyEncapsulation lib a (world t))\<rparr>))"
    by (simp add: run_kems_def)
next
  fix a rest acc and t :: "('w, 'h) state"
  assume "a \<in> set sigs \<and> \<not> availS a"
  with assms(3) have "fst (Signature lib a (world t)) = Inl MechanismNotEnabledError"
    by simp
  from benchmark_sig_unavailable [OF this, of n]
  show "run_sigs lib n (a # rest) acc t
          = run_sigs lib n rest acc
              (print (skip_message a)
                 ((print (sig_line a) t)\<lparr>world := snd (Signature lib a (world t))\<rparr>))"
    by (simp add: run_sigs_def)
next
  fix s'
  assume m: "main_on lib kems sigs n s = (Inr (), s')"
  from m show "\<forall>a\<in>set kems. \<not> availK a \<longrightarrow> skip_message a \<in> set (stdout s')"
  proof (cases rule: main_on_completes_cases)
    case (empty s1)
    from run_benchmarks_available [OF assms empty(1)] empty(2) show ?thesis
      by (auto simp: print_def)
  next
    case (saved rs s1 ls mid)
    from run_benchmarks_available [OF assms saved(1)] saved(4) show ?thesis by auto
  qed
  from m show "\<forall>a\<in>set sigs. \<not> availS a \<longrightarrow> skip_message a \<in> set (stdout s')"
  proof (cases rule: main_on_completes_cases)
    case (empty s1)
    from run_benchmarks_available [OF assms empty(1)] empty(2) show ?thesis
      by (auto simp: print_def)
  next
    case (saved rs s1 ls mid)
    from run_benchmarks_available [OF assms saved(1)] saved(4) show ?thesis by auto
  qed
  from m show "if filter availK kems = [] \<and> filter availS sigs = [] then files s' = files s
           else \<exists>rows. files s' OUTPUT_CSV_FILE = Some (map StrV HEADER # rows)
                  \<and> length rows = length (filter availK kems) + length (filter availS sigs)"
  proof (cases rule: main_on_completes_cases)
    case (empty s1)
    from run_benchmarks_available [OF assms empty(1)]
    have "filter availK kems = [] \<and> filter availS sigs = []" by auto
    moreover from empty(1) have "console_only s s1" by (rule run_benchmarks_console_only)
    ultimately show ?thesis using empty(2) by (simp add: console_only_def print_def)
  next
    case (saved rs s1 ls mid)
    from run_benchmarks_available [OF assms saved(1)] obtain rk rg where
      "rs = rk @ rg" "list_all2 kem_record (filter availK kems) rk"
      "list_all2 sig_record (filter availS sigs) rg" by blast
    then have len: "length rs = length (filter availK kems) + length (filter availS sigs)"
      by (simp add: list_all2_lengthD)
    with saved(2) have "\<not> (filter availK kems = [] \<and> filter availS sigs = [])" by auto
    moreover have "files s' OUTPUT_CSV_FILE = Some (map StrV HEADER # map (map snd) rs)"
      by (simp add: saved(5))
    ultimately show ?thesis using len by auto
  qed
qed

text \<open>
  Claim C3. Let the library signal \<^verbatim>\<open>MechanismNotEnabledError\<close> only from its
  constructors, and let \<open>availK\<close> and \<open>availS\<close> say for which configured names the KEM and
  the signature constructor do not signal it. Then \<^verbatim>\<open>main\<close> never ends with that
  exception; a loop that meets an unavailable target \<open>a\<close> prints the line
  \<^verbatim>\<open>Algorithm a is not enabled in this build of liboqs. Skipping.\<close> and goes on with the
  next target and the same list of records; and when \<^verbatim>\<open>main\<close> completes, that line is on
  the console for every unavailable target and the file holds, after its header, as many
  rows as there are available targets (with no available target, no file is written).
\<close>

theorem unavailable_targets_are_skipped:
  fixes lib :: "('w, 'h) oqs"
  assumes "only_constructors_signal lib"
    and "\<forall>a\<in>set kems. \<forall>w. (fst (KeyEncapsulation lib a w) = Inl MechanismNotEnabledError)
                             = (\<not> availK a)"
    and "\<forall>a\<in>set sigs. \<forall>w. (fst (Signature lib a w) = Inl MechanismNotEnabledError)
                             = (\<not> availS a)"
  shows "(\<forall>e s'. main_on lib kems sigs n s = (Inl e, s') \<longrightarrow> e \<noteq> MechanismNotEnabledError)
    \<and> (\<forall>a rest acc t. a \<in> set kems \<and> \<not> availK a \<longrightarrow>
          run_kems lib n (a # rest) acc t
            = run_kems lib n rest acc
                (print (Text (''Algorithm '' @ a @ '' is not enabled in this build of liboqs. Skipping.''))
                   ((print (kem_line a) t)\<lparr>world := snd (KeyEncapsulation lib a (world t))\<rparr>)))
    \<and> (\<forall>a rest acc t. a \<in> set sigs \<and> \<not> availS a \<longrightarrow>
          run_sigs lib n (a # rest) acc t
            = run_sigs lib n rest acc
                (print (Text (''Algorithm '' @ a @ '' is not enabled in this build of liboqs. Skipping.''))
                   ((print (sig_line a) t)\<lparr>world := snd (Signature lib a (world t))\<rparr>)))
    \<and> (\<forall>s'. main_on lib kems sigs n s = (Inr (), s') \<longrightarrow>
          (\<forall>a\<in>set kems. \<not> availK a \<longrightarrow> Text (''Algorithm '' @ a @ '' is not enabled in this build of liboqs. Skipping.'') \<in> set (stdout s'))
        \<and> (\<forall>a\<in>set sigs. \<not> availS a \<longrightarrow> Text (''Algorithm '' @ a @ '' is not enabled in this build of liboqs. Skipping.'') \<in> set (stdout s'))
        \<and> (if filter availK kems = [] \<and> filter availS sigs = [] then files s' = files s
           else \<exists>rows. files s' OUTPUT_CSV_FILE = Some (map StrV HEADER # rows)
                  \<and> length rows = length (filter availK kems) + length (filter availS sigs)))"
  by (rule skipped_and_counted [OF assms, unfolded skip_message_def])

theorem unavailable_targets_are_skipped_witness:
  "fst (main_on (stub [''Kyber768'', ''Dilithium3''] [] []) KEM_ALGORITHMS SIGNATURE_ALGORITHMS
          1 init) = Inr ()
   \<and> length (the (files (snd (main_on (stub [''Kyber768'', ''Dilithium3''] [] [])
                                 KEM_ALGORITHMS SIGNATURE_ALGORITHMS 1 init))
                    OUTPUT_CSV_FILE)) = 3
   \<and> Text ''Algorithm Falcon-512 is not enabled in this build of liboqs. Skipping.''
       \<in> set (stdout (snd (main_on (stub [''Kyber768'', ''Dilithium3''] [] [])
                              KEM_ALGORITHMS SIGNATURE_ALGORITHMS 1 init)))"
proof -
  let ?lib = "stub [''Kyber768'', ''Dilithium3''] [] []"
  let ?avail = "\<lambda>a. a \<in> set [''Kyber768'', ''Dilithium3'']"
  let ?m = "main_on ?lib KEM_ALGORITHMS SIGNATURE_ALGORITHMS 1 init"
  have h1: "only_constructors_signal ?lib"
    by (simp add: only_constructors_signal_def stub_def)
  have h2: "\<forall>a\<in>set KEM_ALGORITHMS. \<forall>w.
              (fst (KeyEncapsulation ?lib a w) = Inl MechanismNotEnabledError) = (\<not> ?avail a)"
    by (simp add: stub_def)
  have h3: "\<forall>a\<in>set SIGNATURE_ALGORITHMS. \<forall>w.
              (fst (Signature ?lib a w) = Inl MechanismNotEnabledError) = (\<not> ?avail a)"
    by (simp add: stub_def)
  have f: "fst ?m = Inr ()"
    by (simp add: run_defs report_defs KEM_ALGORITHMS_def SIGNATURE_ALGORITHMS_def)
  then have m: "?m = (Inr (), snd ?m)" by (simp add: prod_eq_iff)
  note r = unavailable_targets_are_skipped [OF h1 h2 h3, of 1 init,
              THEN conjunct2, THEN conjunct2, THEN conjunct2, rule_format, OF m]
  from r have "Text ''Algorithm Falcon-512 is not enabled in this build of liboqs. Skipping.'' \<in> set (stdout (snd ?m))"
    by (simp add: SIGNATURE_ALGORITHMS_def)
  moreover from r have "\<exists>rows. files (snd ?m) OUTPUT_CSV_FILE = Some (map StrV HEADER # rows)
      \<and> length rows = 2"
    by (auto simp: SIGNATURE_ALGORITHMS_def KEM_ALGORITHMS_def numeral_2_eq_2)
  ultimately show ?thesis using f by auto
qed

subsection \<open>Order of the report\<close>

lemma kem_record_cells:
  assumes "kem_record a r"
  shows "map_of r ''Algorithm'' = Some (StrV a)" and "hd (map snd r) = StrV a"
    and "map snd r ! 1 = StrV ''KEM''"
    and "\<exists>rest. summary_line r = Inr (Format header_str (Val (StrV a) # rest))"
  using assms
  by (auto simp: kem_record_def HEADER_def summary_line_def seq_def getitem_def fixed3_def)

lemma sig_record_cells:
  assumes "sig_record a r"
  shows "map_of r ''Algorithm'' = Some (StrV a)" and "hd (map snd r) = StrV a"
    and "map snd r ! 1 = StrV ''Signature''"
    and "\<exists>rest. summary_line r = Inr (Format header_str (Val (StrV a) # rest))"
  using assms
  by (auto simp: sig_record_def HEADER_def summary_line_def seq_def getitem_def fixed3_def)

lemma list_all2_const_column:
  assumes "list_all2 P xs ys" and "\<And>x y. P x y \<Longrightarrow> f y = c"
  shows "map f ys = replicate (length xs) c"
  using assms by (induction rule: list_all2_induct) auto

lemma list_all2_summary_lines:
  assumes "list_all2 (\<lambda>a r. \<exists>rest. summary_line r = Inr (Format header_str (Val (StrV a) # rest)))
             names rs"
    and "map Inr ls = map summary_line rs"
  shows "list_all2 (\<lambda>a l. \<exists>rest. l = Format header_str (Val (StrV a) # rest)) names ls"
  using assms
proof (induction arbitrary: ls rule: list_all2_induct)
  case Nil
  then show ?case by simp
next
  case (Cons a names r rs)
  from Cons.prems obtain l ls' where ls: "ls = l # ls'" "Inr l = summary_line r"
    "map Inr ls' = map summary_line rs"
    by (cases ls) auto
  from Cons.IH [OF ls(3)] Cons.hyps(1) ls(1,2) show ?case by auto
qed

text \<open>
  Claim C7. Under the conditions of C3, let \<^verbatim>\<open>main\<close> complete, and let \<open>names\<close> be the
  available KEM names in their configured order followed by the available signature names
  in theirs. Then the loops leave exactly one record per name, in that order, the KEM
  records first; the rows of the CSV file are the values of these records in the same
  order (the first cell of a row is the name, the second its category); and the last lines
  of the console are the table rows of these records in the same order, each starting
  with the name.
\<close>

theorem report_keeps_configuration_order:
  fixes lib :: "('w, 'h) oqs"
  assumes "only_constructors_signal lib"
    and "\<forall>a\<in>set kems. \<forall>w. (fst (KeyEncapsulation lib a w) = Inl MechanismNotEnabledError)
                             = (\<not> availK a)"
    and "\<forall>a\<in>set sigs. \<forall>w. (fst (Signature lib a w) = Inl MechanismNotEnabledError)
                             = (\<not> availS a)"
    and "main_on lib kems sigs n s = (Inr (), s')"
  shows "\<exists>all_results s1 rows before lines.
      run_benchmarks lib kems sigs n s = (Inr all_results, s1)
    \<and> list_all2 (\<lambda>a r. map_of r ''Algorithm'' = Some (StrV a))
         (filter availK kems @ filter availS sigs) all_results
    \<and> rows = map (map snd) all_results
    \<and> list_all2 (\<lambda>a row. hd row = StrV a) (filter availK kems @ filter availS sigs) rows
    \<and> map (\<lambda>row. row ! 1) rows
        = replicate (length (filter availK kems)) (StrV ''KEM'')
          @ replicate (length (filter availS sigs)) (StrV ''Signature'')
    \<and> (all_results \<noteq> [] \<longrightarrow> files s' OUTPUT_CSV_FILE = Some (map StrV HEADER # rows))
    \<and> map Inr lines = map summary_line all_results
    \<and> list_all2 (\<lambda>a l. \<exists>rest. l = Format header_str (Val (StrV a) # rest))
         (filter availK kems @ filter availS sigs) lines
    \<and> stdout s' = before @ lines"
proof -
  let ?names = "filter availK kems @ filter availS sigs"
  have shape: "list_all2 (\<lambda>a r. map_of r ''Algorithm'' = Some (StrV a)) ?names rs
      \<and> list_all2 (\<lambda>a row. hd row = StrV a) ?names (map (map snd) rs)
      \<and> map (\<lambda>row. row ! 1) (map (map snd) rs)
          = replicate (length (filter availK kems)) (StrV ''KEM'')
            @ replicate (length (filter availS sigs)) (StrV ''Signature'')
      \<and> list_all2 (\<lambda>a r. \<exists>rest. summary_line r = Inr (Format header_str (Val (StrV a) # rest)))
          ?names rs"
    if run: "run_benchmarks lib kems sigs n s = (Inr rs, s1)" for rs s1
  proof -
    from run_benchmarks_available [OF assms(1-3) run] obtain rk rg where
      rs: "rs = rk @ rg" and rk: "list_all2 kem_record (filter availK kems) rk"
      and rg: "list_all2 sig_record (filter availS sigs) rg" by blast
    have "list_all2 (\<lambda>a r. map_of r ''Algorithm'' = Some (StrV a)) ?names rs"
      unfolding rs
      by (intro list_all2_appendI list_all2_mono [OF rk] list_all2_mono [OF rg])
         (simp_all add: kem_record_cells sig_record_cells)
    moreover have "list_all2 (\<lambda>a row. hd row = StrV a) ?names (map (map snd) rs)"
    proof -
      have "list_all2 (\<lambda>a row. hd row = StrV a) (filter availK kems) (map (map snd) rk)"
        unfolding list_all2_map2
        by (rule list_all2_mono [OF rk]) (simp add: kem_record_cells)
      moreover
      have "list_all2 (\<lambda>a row. hd row = StrV a) (filter availS sigs) (map (map snd) rg)"
        unfolding list_all2_map2
        by (rule list_all2_mono [OF rg]) (simp add: sig_record_cells)
      ultimately show ?thesis
        unfolding rs map_append by (rule list_all2_appendI)
    qed
    moreover have "map (\<lambda>row. row ! 1) (map (map snd) rk)
                     = replicate (length (filter availK kems)) (StrV ''KEM'')"
      unfolding map_map
      by (rule list_all2_const_column [OF rk]) (simp add: kem_record_cells(3) [simplified])
    moreover have "map (\<lambda>row. row ! 1) (map (map snd) rg)
                     = replicate (length (filter availS sigs)) (StrV ''Signature'')"
      unfolding map_map
      by (rule list_all2_const_column [OF rg]) (simp add: sig_record_cells(3) [simplified])
    moreover have "list_all2 (\<lambda>a r. \<exists>rest. summary_line r
                       = Inr (Format header_str (Val (StrV a) # rest))) ?names rs"
      unfolding rs
      by (intro list_all2_appendI list_all2_mono [OF rk] list_all2_mono [OF rg])
         (simp_all add: kem_record_cells sig_record_cells)
    ultimately show ?thesis by (simp add: rs)
  qed
  from assms(4) show ?thesis
  proof (cases rule: main_on_completes_cases)
    case (empty s1)
    from shape [OF empty(1)] have "?names = []" by simp
    with empty(1) have "run_benchmarks lib kems sigs n s = (Inr [], s1)
      \<and> list_all2 (\<lambda>a r. map_of r ''Algorithm'' = Some (StrV a)) ?names []
      \<and> [] = map (map snd) []
      \<and> list_all2 (\<lambda>a row. hd row = StrV a) ?names []
      \<and> map (\<lambda>row. row ! 1) []
          = replicate (length (filter availK kems)) (StrV ''KEM'')
            @ replicate (length (filter availS sigs)) (StrV ''Signature'')
      \<and> ([] \<noteq> [] \<longrightarrow> files s' OUTPUT_CSV_FILE = Some (map StrV HEADER # []))
      \<and> map Inr [] = map summary_line []
      \<and> list_all2 (\<lambda>a l. \<exists>rest. l = Format header_str (Val (StrV a) # rest)) ?names []
      \<and> stdout s' = stdout s' @ []"
      by simp
    then show ?thesis by blast
  next
    case (saved rs s1 ls mid)
    note sh = shape [OF saved(1)]
    from sh saved(3)
    have lines: "list_all2 (\<lambda>a l. \<exists>rest. l = Format header_str (Val (StrV a) # rest)) ?names ls"
      by (blast intro: list_all2_summary_lines)
    have "files s' OUTPUT_CSV_FILE = Some (map StrV HEADER # map (map snd) rs)"
      by (simp add: saved(5))
    moreover have "stdout s' = (stdout s1 @ mid) @ ls" by (simp add: saved(4))
    ultimately
    have "run_benchmarks lib kems sigs n s = (Inr rs, s1)
      \<and> list_all2 (\<lambda>a r. map_of r ''Algorithm'' = Some (StrV a)) ?names rs
      \<and> map (map snd) rs = map (map snd) rs
      \<and> list_all2 (\<lambda>a row. hd row = StrV a) ?names (map (map snd) rs)
      \<and> map (\<lambda>row. row ! 1) (map (map snd) rs)
          = replicate (length (filter availK kems)) (StrV ''KEM'')
            @ replicate (length (filter availS sigs)) (StrV ''Signature'')
      \<and> (rs \<noteq> [] \<longrightarrow> files s' OUTPUT_CSV_FILE = Some (map StrV HEADER # map (map snd) rs))
      \<and> map Inr ls = map summary_line rs
      \<and> list_all2 (\<lambda>a l. \<exists>rest. l = Format header_str (Val (StrV a) # rest)) ?names ls
      \<and> stdout s' = (stdout s1 @ mid) @ ls"
      using saved(1,3) sh lines by blast
    then show ?thesis by blast
  qed
qed

theorem report_keeps_configuration_order_witness:
  "fst (main_on (stub [''Dilithium3'', ''Kyber768''] [] []) KEM_ALGORITHMS SIGNATURE_ALGORITHMS
          1 init) = Inr ()
   \<and> map hd (tl (the (files (snd (main_on (stub [''Dilithium3'', ''Kyber768''] [] [])
                                      KEM_ALGORITHMS SIGNATURE_ALGORITHMS 1 init))
                         OUTPUT_CSV_FILE)))
       = [StrV ''Kyber768'', StrV ''Dilithium3'']"
proof -
  let ?lib = "stub [''Dilithium3'', ''Kyber768''] [] []"
  let ?avail = "\<lambda>a. a \<in> set [''Dilithium3'', ''Kyber768'']"
  let ?m = "main_on ?lib KEM_ALGORITHMS SIGNATURE_ALGORITHMS 1 init"
  have h1: "only_constructors_signal ?lib"
    by (simp add: only_constructors_signal_def stub_def)
  have h2: "\<forall>a\<in>set KEM_ALGORITHMS. \<forall>w.
              (fst (KeyEncapsulation ?lib a w) = Inl MechanismNotEnabledError) = (\<not> ?avail a)"
    by (simp add: stub_def)
  have h3: "\<forall>a\<in>set SIGNATURE_ALGORITHMS. \<forall>w.
              (fst (Signature ?lib a w) = Inl MechanismNotEnabledError) = (\<not> ?avail a)"
    by (simp add: stub_def)
  have f: "fst ?m = Inr ()"
    by (simp add: run_defs report_defs KEM_ALGORITHMS_def SIGNATURE_ALGORITHMS_def)
  then have m: "?m = (Inr (), snd ?m)" by (simp add: prod_eq_iff)
  from report_keeps_configuration_order [OF h1 h2 h3 m]
  obtain all_results rows where
    "list_all2 (\<lambda>a r. map_of r ''Algorithm'' = Some (StrV a))
       (filter ?avail KEM_ALGORITHMS @ filter ?avail SIGNATURE_ALGORITHMS) all_results"
    "list_all2 (\<lambda>a row. hd row = StrV a)
       (filter ?avail KEM_ALGORITHMS @ filter ?avail SIGNATURE_ALGORITHMS) rows"
    "all_results \<noteq> [] \<longrightarrow> files (snd ?m) OUTPUT_CSV_FILE = Some (map StrV HEADER # rows)"
    by blast
  then have "map hd (tl (the (files (snd ?m) OUTPUT_CSV_FILE)))
               = [StrV ''Kyber768'', StrV ''Dilithium3'']"
    by (auto simp: KEM_ALGORITHMS_def SIGNATURE_ALGORITHMS_def list_all2_Cons1)
  with f show ?thesis by simp
qed

subsection \<open>Timing samples and their means\<close>









end
